theory Spec2Isabelle
  imports Complex_Main "HOL-Library.Sublist"
begin

section \<open>Values, strings and errors\<close>

text \<open>
  The program (\<^verbatim>\<open>Articoli_Sec_8k.py\<close>) reads JSON manifests and HTML exhibits from a
  web service. A decoded JSON value is a \<open>jval\<close>; a Python dict is the list of its
  key/value pairs, each key once, read with \<open>map_of\<close>. JSON numbers are restricted to
  integers. A Python \<open>str\<close> is a \<open>string\<close>; the model is exact on ASCII text:
  \<open>str.lower\<close> changes the letters A to Z only, and the whitespace of \<open>\s\<close> and of
  \<open>str.strip\<close> is the ASCII whitespace of Python 3 (codes 9 to 13, 28 to 32).
  Every exception the code can raise is a value of \<open>error\<close>.
\<close>

datatype error =
    TransportError      \<comment> \<open>raised by \<open>session.get\<close>: connection failure, timeout\<close>
  | HTTPError           \<comment> \<open>raised by \<open>raise_for_status\<close>\<close>
  | JSONDecodeError     \<comment> \<open>raised by \<open>r.json()\<close>\<close>
  | AttributeError
  | TypeError
  | ValueError

datatype jval =
    JNull
  | JBool bool
  | JNum int
  | JStr string
  | JArr "jval list"
  | JObj "(string \<times> jval) list"

fun truthy :: "jval \<Rightarrow> bool" where
  "truthy JNull = False"
| "truthy (JBool b) = b"
| "truthy (JNum n) = (n \<noteq> 0)"
| "truthy (JStr s) = (s \<noteq> [])"
| "truthy (JArr xs) = (xs \<noteq> [])"
| "truthy (JObj kvs) = (kvs \<noteq> [])"

text \<open>Sequencing of fallible steps: the first error raised is the result.\<close>

definition ebind :: "error + 'a \<Rightarrow> ('a \<Rightarrow> error + 'b) \<Rightarrow> error + 'b" where
  "ebind m f = (case m of Inl e \<Rightarrow> Inl e | Inr x \<Rightarrow> f x)"

text \<open>\<open>a or b\<close>\<close>

definition py_or :: "jval \<Rightarrow> jval \<Rightarrow> jval" where
  "py_or a b = (if truthy a then a else b)"

text \<open>\<open>d.get(k, default)\<close>: only a dict has the method.\<close>

fun dict_get :: "jval \<Rightarrow> string \<Rightarrow> jval \<Rightarrow> error + jval" where
  "dict_get (JObj kvs) k d = Inr (case map_of kvs k of None \<Rightarrow> d | Some v \<Rightarrow> v)"
| "dict_get _ k d = Inl AttributeError"

definition whitespace :: "char list" where
  "whitespace = [CHR 0x09, CHR 0x0A, CHR 0x0B, CHR 0x0C, CHR 0x0D,
                 CHR 0x1C, CHR 0x1D, CHR 0x1E, CHR 0x1F, CHR 0x20]"

definition isspace :: "char \<Rightarrow> bool" where
  "isspace c = (c \<in> set whitespace)"

definition lower_char :: "char \<Rightarrow> char" where
  "lower_char c =
     (case map_of (zip ''ABCDEFGHIJKLMNOPQRSTUVWXYZ'' ''abcdefghijklmnopqrstuvwxyz'') c of
        None \<Rightarrow> c
      | Some d \<Rightarrow> d)"

definition lower :: "string \<Rightarrow> string" where
  "lower s = map lower_char s"

text \<open>\<open>v.lower()\<close> on a JSON value: only a string has the method.\<close>

fun py_lower :: "jval \<Rightarrow> error + string" where
  "py_lower (JStr s) = Inr (lower s)"
| "py_lower _ = Inl AttributeError"

text \<open>\<open>re.sub(r"\s+", " ", s)\<close>: every maximal run of whitespace becomes one space.\<close>

function re_sub_ws :: "string \<Rightarrow> string" where
  "re_sub_ws [] = []"
| "re_sub_ws (c # cs) =
     (if isspace c then CHR '' '' # re_sub_ws (dropWhile isspace cs) else c # re_sub_ws cs)"
  by pat_completeness auto
termination
  by (relation "measure length") (auto simp: le_imp_less_Suc length_dropWhile_le)

text \<open>\<open>s.strip()\<close>\<close>

definition strip :: "string \<Rightarrow> string" where
  "strip s = rev (dropWhile isspace (rev (dropWhile isspace s)))"

section \<open>The attachment selector\<close>

definition PRESS_KEYWORDS :: "string list" where
  "PRESS_KEYWORDS =
     [''press release'', ''earnings release'', ''news release'',
      ''conference call'', ''prepared remarks'', ''investor presentation'']"

text \<open>\<open>is_text_file(name)\<close>, lines 73 to 75.\<close>

definition is_text_file :: "jval \<Rightarrow> error + bool" where
  "is_text_file name =
     ebind (py_lower (py_or name (JStr [])))
       (\<lambda>n. Inr (suffix ''.htm'' n \<or> suffix ''.html'' n \<or> suffix ''.txt'' n))"

text \<open>
  \<open>normalize(s)\<close>, lines 77 and 78 (\<open>normalize\<close> is a constant of HOL already, hence
  the name).
\<close>

definition normalize_text :: "jval \<Rightarrow> error + string" where
  "normalize_text s =
     ebind (py_lower (py_or s (JStr []))) (\<lambda>l. Inr (strip (re_sub_ws l)))"

text \<open>
  The body of \<open>score_item\<close> once \<open>name\<close> and \<open>typ\<close> are normalized (lines 88 to 105):
  the four marker tests, then the loop over \<open>PRESS_KEYWORDS\<close>.
\<close>

definition marker_score :: "string \<Rightarrow> string \<Rightarrow> int" where
  "marker_score name typ =
     (let score = 0;
          score = (if sublist ''99.1'' typ \<or> sublist ''99.01'' typ \<or> sublist ''ex-99'' typ
                   then score + 100 else score);
          score = (if sublist ''ex-99.1'' typ \<or> sublist ''ex-99.01'' typ
                   then score + 120 else score);
          score = (if sublist ''ex99'' name \<or> sublist ''ex-99'' name
                   then score + 50 else score);
          score = (if sublist ''99_1'' name \<or> sublist ''99-1'' name \<or> sublist ''99.1'' name
                      \<or> sublist ''9901'' name
                   then score + 30 else score)
      in fold (\<lambda>kw score. if sublist kw name then score + 20 else score) PRESS_KEYWORDS score)"

text \<open>\<open>score_item(item)\<close>, lines 80 to 113.\<close>

definition score_item :: "jval \<Rightarrow> error + int" where
  "score_item item =
     ebind (dict_get item ''name'' (JStr [])) (\<lambda>nv.
     ebind (normalize_text nv) (\<lambda>name.
     ebind (dict_get item ''type'' (JStr [])) (\<lambda>tv.
     ebind (normalize_text tv) (\<lambda>typ.
     let score = marker_score name typ in
     ebind (dict_get item ''name'' (JStr [])) (\<lambda>nv'.
     ebind (is_text_file nv') (\<lambda>b.
     Inr (if b then score + 10 else score - 100)))))))"

text \<open>
  \<open>for it in items\<close>: a list yields its elements, a dict its keys, a string its
  characters; \<open>None\<close>, a bool and a number are not iterable.
\<close>

fun py_iter :: "jval \<Rightarrow> error + jval list" where
  "py_iter (JArr xs) = Inr xs"
| "py_iter (JObj kvs) = Inr (map (\<lambda>kv. JStr (fst kv)) kvs)"
| "py_iter (JStr s) = Inr (map (\<lambda>c. JStr [c]) s)"
| "py_iter _ = Inl TypeError"

text \<open>The test of the candidate filter, \<open>is_text_file(it.get("name", ""))\<close>.\<close>

definition is_candidate :: "jval \<Rightarrow> error + bool" where
  "is_candidate it = ebind (dict_get it ''name'' (JStr [])) is_text_file"

text \<open>\<open>[it for it in items if is_text_file(it.get("name", ""))]\<close>, line 135.\<close>

fun text_candidates :: "jval list \<Rightarrow> error + jval list" where
  "text_candidates [] = Inr []"
| "text_candidates (it # its) =
     ebind (is_candidate it) (\<lambda>b.
     ebind (text_candidates its) (\<lambda>rest.
     Inr (if b then it # rest else rest)))"

text \<open>
  \<open>max(xs, key=f)\<close>: the key of every element is computed in order, and the element
  kept is replaced only by one whose key is strictly greater.
\<close>

fun max_from :: "('a \<Rightarrow> error + int) \<Rightarrow> 'a \<Rightarrow> int \<Rightarrow> 'a list \<Rightarrow> error + 'a" where
  "max_from key best bk [] = Inr best"
| "max_from key best bk (x # xs) =
     ebind (key x) (\<lambda>k. if k > bk then max_from key x k xs else max_from key best bk xs)"

fun py_max :: "('a \<Rightarrow> error + int) \<Rightarrow> 'a list \<Rightarrow> error + 'a" where
  "py_max key [] = Inl ValueError"
| "py_max key (x # xs) = ebind (key x) (\<lambda>k. max_from key x k xs)"

text \<open>Lines 140 to 143 of \<open>download_best_press_release\<close>: the winner, or \<open>None\<close>.\<close>

definition choose_best :: "jval list \<Rightarrow> error + jval option" where
  "choose_best candidates =
     ebind (py_max score_item candidates) (\<lambda>best.
     ebind (score_item best) (\<lambda>s.
     Inr (if s < 20 then None else Some best)))"

text \<open>
  Lines 135 to 143 of \<open>download_best_press_release\<close>, the spec's \<open>selectBest\<close>:
  the filter, the empty test and the choice.
\<close>

definition select_best :: "jval \<Rightarrow> error + jval option" where
  "select_best items =
     ebind (py_iter items) (\<lambda>its.
     ebind (text_candidates its) (\<lambda>candidates.
     if candidates = [] then Inr None else choose_best candidates))"

section \<open>The markup text extractor\<close>

text \<open>
  \<open>BeautifulSoup(content, "html.parser")\<close> is a library call: the parser is a parameter
  of the model, a function from the content to the children of the soup. A node is a
  tag with its name, its attributes and its children, a string that \<open>get_text\<close>
  collects (\<open>NavigableString\<close>), or a string that it skips (\<open>Comment\<close>: a comment, a
  doctype, a declaration).
\<close>

datatype node =
    NavigableString string
  | Comment string
  | Tag string "(string \<times> string) list" "node list"

type_synonym parser = "string \<Rightarrow> node list"

text \<open>
  \<open>for tag in soup.find_all(p): tag.decompose()\<close>: every tag that matches \<open>p\<close>
  leaves the tree with all it contains. The three tests of the source read the name
  and the attributes of a tag only.
\<close>

fun matches :: "(string \<Rightarrow> (string \<times> string) list \<Rightarrow> bool) \<Rightarrow> node \<Rightarrow> bool" where
  "matches p (Tag name attrs children) = p name attrs"
| "matches p _ = False"

fun decompose_in :: "(string \<Rightarrow> (string \<times> string) list \<Rightarrow> bool) \<Rightarrow> node \<Rightarrow> node" where
  "decompose_in p (Tag name attrs children) =
     Tag name attrs (map (decompose_in p) (filter (\<lambda>c. \<not> matches p c) children))"
| "decompose_in p n = n"

definition decompose_all ::
  "(string \<Rightarrow> (string \<times> string) list \<Rightarrow> bool) \<Rightarrow> node list \<Rightarrow> node list"
where
  "decompose_all p soup = map (decompose_in p) (filter (\<lambda>c. \<not> matches p c) soup)"

text \<open>\<open>soup(["script", "style"])\<close>, line 58.\<close>

definition is_script_or_style :: "string \<Rightarrow> (string \<times> string) list \<Rightarrow> bool" where
  "is_script_or_style name attrs = (name \<in> set [''script'', ''style''])"

text \<open>\<open>lambda t: t.name and str(t.name).lower().startswith("ix:")\<close>, line 62.\<close>

definition is_ix :: "string \<Rightarrow> (string \<times> string) list \<Rightarrow> bool" where
  "is_ix name attrs = (name \<noteq> [] \<and> prefix ''ix:'' (lower name))"

text \<open>
  \<open>lambda v: v and "display:none" in v.replace(" ", "").lower()\<close>, line 66, on the
  value of the \<open>style\<close> attribute (\<open>None\<close> when the tag has none).
\<close>

definition hidden_style :: "string option \<Rightarrow> bool" where
  "hidden_style v =
     (case v of
        None \<Rightarrow> False
      | Some s \<Rightarrow> s \<noteq> [] \<and> sublist ''display:none'' (lower (filter (\<lambda>c. c \<noteq> CHR '' '') s)))"

definition is_hidden :: "string \<Rightarrow> (string \<times> string) list \<Rightarrow> bool" where
  "is_hidden name attrs = hidden_style (map_of attrs ''style'')"

text \<open>The strings of a tree in document order, as \<open>get_text\<close> visits them.\<close>

fun strings :: "node \<Rightarrow> string list" where
  "strings (NavigableString s) = [s]"
| "strings (Comment s) = []"
| "strings (Tag name attrs children) = concat (map strings children)"

text \<open>\<open>sep.join(xs)\<close>\<close>

fun py_join :: "string \<Rightarrow> string list \<Rightarrow> string" where
  "py_join sep [] = []"
| "py_join sep [x] = x"
| "py_join sep (x # y # ys) = x @ sep @ py_join sep (y # ys)"

text \<open>\<open>soup.get_text(separator=sep, strip=True)\<close>: each string stripped, the empty ones dropped.\<close>

definition get_text :: "string \<Rightarrow> node list \<Rightarrow> string" where
  "get_text sep soup =
     py_join sep (filter (\<lambda>s. s \<noteq> []) (map strip (concat (map strings soup))))"

text \<open>Lines 58 to 67: the soup after the three removals.\<close>

definition clean_soup :: "node list \<Rightarrow> node list" where
  "clean_soup soup =
     (let soup = decompose_all is_script_or_style soup;
          soup = decompose_all is_ix soup;
          soup = decompose_all is_hidden soup
      in soup)"

text \<open>Lines 58 to 71: \<open>clean_html_to_text\<close> after the parse.\<close>

definition soup_to_text :: "node list \<Rightarrow> string" where
  "soup_to_text soup =
     (let text = get_text '' '' (clean_soup soup);
          text = strip (re_sub_ws text)
      in text)"

text \<open>\<open>clean_html_to_text(content)\<close>, lines 55 to 71.\<close>

definition clean_html_to_text :: "parser \<Rightarrow> string \<Rightarrow> string" where
  "clean_html_to_text parse content = soup_to_text (parse content)"

section \<open>The fetch client\<close>

text \<open>
  The network is a function from the URL and the number of requests issued so far to
  what \<open>session.get\<close> finds: a response, or \<open>None\<close> when the request fails
  (no connection, timeout) and \<open>session.get\<close> raises. The state records the number of
  requests and the durations (in seconds) passed to \<open>time.sleep\<close>; the durations of
  the source are exact as binary fractions, so they are rationals here.
  \<open>json_body\<close> is what \<open>r.json()\<close> returns, \<open>None\<close> when the body does not decode.
\<close>

record response =
  status_code :: int
  content :: string
  json_body :: "jval option"

type_synonym server = "string \<Rightarrow> nat \<Rightarrow> response option"

record net =
  requests :: nat
  slept :: "rat list"

definition SLEEP_SEC :: rat where
  "SLEEP_SEC = 1 / 4"

definition time_sleep :: "rat \<Rightarrow> net \<Rightarrow> net" where
  "time_sleep d st = st\<lparr>slept := slept st @ [d]\<rparr>"

definition sleep :: "net \<Rightarrow> net" where
  "sleep st = time_sleep SLEEP_SEC st"

definition session_get :: "server \<Rightarrow> string \<Rightarrow> net \<Rightarrow> (error + response) \<times> net" where
  "session_get srv url st =
     (case srv url (requests st) of None \<Rightarrow> Inl TransportError | Some r \<Rightarrow> Inr r,
      st\<lparr>requests := Suc (requests st)\<rparr>)"

text \<open>\<open>1.0 + i * 1.5\<close>, lines 42 and 45.\<close>

definition backoff :: "nat \<Rightarrow> rat" where
  "backoff i = 1 + of_nat i * (3 / 2)"

text \<open>
  The loop of \<open>get_with_retry\<close> (lines 37 to 48) over the remaining values of \<open>i\<close>,
  with the value of \<open>last\<close> (here \<open>lastr\<close>).
\<close>

fun retry_loop ::
  "server \<Rightarrow> string \<Rightarrow> nat list \<Rightarrow> response option \<Rightarrow> net \<Rightarrow> (error + response option) \<times> net"
where
  "retry_loop srv url [] lastr st = (Inr lastr, st)"
| "retry_loop srv url (i # js) lastr st =
     (case session_get srv url (sleep st) of
        (Inl e, st') \<Rightarrow> (Inl e, st')
      | (Inr r, st') \<Rightarrow>
          if status_code r = 429
          then retry_loop srv url js (Some r) (time_sleep (backoff i) st')
          else if status_code r \<ge> 500
          then retry_loop srv url js (Some r) (time_sleep (backoff i) st')
          else (Inr (Some r), st'))"

definition get_with_retry ::
  "server \<Rightarrow> string \<Rightarrow> nat \<Rightarrow> net \<Rightarrow> (error + response option) \<times> net"
where
  "get_with_retry srv url tries st = retry_loop srv url [0..<tries] None st"

definition raise_for_status :: "response \<Rightarrow> error + unit" where
  "raise_for_status r =
     (if 400 \<le> status_code r \<and> status_code r < 600 then Inl HTTPError else Inr ())"

text \<open>\<open>get_json(url)\<close>, lines 50 to 53; \<open>tries\<close> has its default, 4.\<close>

definition get_json :: "server \<Rightarrow> string \<Rightarrow> net \<Rightarrow> (error + jval) \<times> net" where
  "get_json srv url st =
     (case get_with_retry srv url 4 st of
        (Inl e, st') \<Rightarrow> (Inl e, st')
      | (Inr None, st') \<Rightarrow> (Inl AttributeError, st')
      | (Inr (Some r), st') \<Rightarrow>
          (ebind (raise_for_status r) (\<lambda>u.
             case json_body r of None \<Rightarrow> Inl JSONDecodeError | Some j \<Rightarrow> Inr j), st'))"

section \<open>The filing processor\<close>

text \<open>
  \<open>int(cik)\<close> on a string of ASCII characters: whitespace around, an optional sign,
  decimal digits with single underscores between them.
\<close>

definition is_digit :: "char \<Rightarrow> bool" where
  "is_digit c = (c \<in> set ''0123456789'')"

definition digit_value :: "char \<Rightarrow> int" where
  "digit_value c = (case map_of (zip ''0123456789'' [0, 1, 2, 3, 4, 5, 6, 7, 8, 9]) c of
                      None \<Rightarrow> 0 | Some d \<Rightarrow> d)"

fun int_literal :: "string \<Rightarrow> bool" where
  "int_literal [] = False"
| "int_literal [c] = is_digit c"
| "int_literal (c # d # cs) =
     (is_digit c \<and> (if d = CHR ''_'' then int_literal cs else int_literal (d # cs)))"

definition decimal_value :: "string \<Rightarrow> int" where
  "decimal_value s = foldl (\<lambda>acc c. 10 * acc + digit_value c) 0 (filter is_digit s)"

definition py_int :: "string \<Rightarrow> error + int" where
  "py_int s =
     (let t = strip s;
          neg = (t \<noteq> [] \<and> hd t = CHR ''-'');
          body = (if t \<noteq> [] \<and> (hd t = CHR ''-'' \<or> hd t = CHR ''+'') then tl t else t)
      in if int_literal body
         then Inr (if neg then - decimal_value body else decimal_value body)
         else Inl ValueError)"

text \<open>\<open>str(n)\<close> for an integer.\<close>

function str_nat :: "nat \<Rightarrow> string" where
  "str_nat n = (if n < 10 then [''0123456789'' ! n]
                else str_nat (n div 10) @ [''0123456789'' ! (n mod 10)])"
  by pat_completeness auto
termination
  by (relation "measure id") auto

definition py_str_int :: "int \<Rightarrow> string" where
  "py_str_int i = (if i < 0 then CHR ''-'' # str_nat (nat (- i)) else str_nat (nat i))"

text \<open>The f-strings of lines 118 and 148.\<close>

definition idx_url :: "string \<Rightarrow> string \<Rightarrow> string" where
  "idx_url cik_short accession_clean =
     ''https://www.sec.gov/Archives/edgar/data/'' @ cik_short @ ''/'' @ accession_clean
       @ ''/index.json''"

text \<open>
  \<open>list_accession_files(cik, accession)\<close>, lines 115 to 124. \<open>except Exception\<close>
  catches every error of the model.
\<close>

definition list_accession_files ::
  "server \<Rightarrow> string \<Rightarrow> string \<Rightarrow> net \<Rightarrow> (error + jval \<times> string \<times> string) \<times> net"
where
  "list_accession_files srv cik accession st =
     (case py_int cik of
        Inl e \<Rightarrow> (Inl e, st)
      | Inr n \<Rightarrow>
          let cik_short = py_str_int n;
              accession_clean = filter (\<lambda>c. c \<noteq> CHR ''-'') accession
          in case get_json srv (idx_url cik_short accession_clean) st of
               (Inl e, st') \<Rightarrow> (Inr (JArr [], cik_short, accession_clean), st')
             | (Inr data, st') \<Rightarrow>
                 (case ebind (dict_get data ''directory'' (JObj []))
                              (\<lambda>d. dict_get d ''item'' (JArr [])) of
                    Inl e \<Rightarrow> (Inr (JArr [], cik_short, accession_clean), st')
                  | Inr items \<Rightarrow> (Inr (items, cik_short, accession_clean), st')))"

text \<open>
  \<open>{filename}\<close> in the f-string of line 148. The winner has passed \<open>is_text_file\<close>,
  so its name is a string; the last case is not reached.
\<close>

fun py_format :: "jval \<Rightarrow> string" where
  "py_format (JStr s) = s"
| "py_format JNull = ''None''"
| "py_format (JBool b) = (if b then ''True'' else ''False'')"
| "py_format (JNum n) = py_str_int n"
| "py_format _ = []"

definition file_url :: "string \<Rightarrow> string \<Rightarrow> jval \<Rightarrow> string" where
  "file_url cik_short accession_clean filename =
     ''https://www.sec.gov/Archives/edgar/data/'' @ cik_short @ ''/'' @ accession_clean
       @ ''/'' @ py_format filename"

record press_release =
  ExhibitFile :: jval
  ExhibitType :: jval
  URL :: string
  Text :: string

text \<open>Lines 145 to 162 of \<open>download_best_press_release\<close>, with the winner \<open>best\<close>.\<close>

definition fetch_exhibit ::
  "parser \<Rightarrow> server \<Rightarrow> string \<Rightarrow> string \<Rightarrow> jval \<Rightarrow> net \<Rightarrow> (error + press_release option) \<times> net"
where
  "fetch_exhibit parse srv cik_short accession_clean best st =
     (case ebind (dict_get best ''name'' JNull) (\<lambda>filename.
           ebind (dict_get best ''type'' (JStr [])) (\<lambda>filetype. Inr (filename, filetype))) of
        Inl e \<Rightarrow> (Inl e, st)
      | Inr (filename, filetype) \<Rightarrow>
          case get_with_retry srv (file_url cik_short accession_clean filename) 4 st of
               (Inl e, st') \<Rightarrow> (Inl e, st')
             | (Inr None, st') \<Rightarrow> (Inl AttributeError, st')
             | (Inr (Some r), st') \<Rightarrow>
                 if status_code r \<noteq> 200 then (Inr None, st')
                 else let text = clean_html_to_text parse (content r)
                      in if length text < 1000 then (Inr None, st')
                         else (Inr (Some \<lparr>ExhibitFile = filename, ExhibitType = filetype,
                                           URL = file_url cik_short accession_clean filename,
                                           Text = text\<rparr>), st'))"

text \<open>\<open>download_best_press_release(cik, accession)\<close>, lines 126 to 162.\<close>

definition download_best_press_release ::
  "parser \<Rightarrow> server \<Rightarrow> string \<Rightarrow> string \<Rightarrow> net \<Rightarrow> (error + press_release option) \<times> net"
where
  "download_best_press_release parse srv cik accession st =
     (case list_accession_files srv cik accession st of
        (Inl e, st') \<Rightarrow> (Inl e, st')
      | (Inr (items, cik_short, accession_clean), st') \<Rightarrow>
          if \<not> truthy items then (Inr None, st')
          else case select_best items of
                 Inl e \<Rightarrow> (Inl e, st')
               | Inr None \<Rightarrow> (Inr None, st')
               | Inr (Some best) \<Rightarrow> fetch_exhibit parse srv cik_short accession_clean best st')"

section \<open>Definitions for the statements\<close>

text \<open>
  The scoring table as the specification words it, over the lower-cased,
  whitespace-normalized copies of the name and the declared type: the five signals
  of the markers and keywords, and the signal of the file extension.
\<close>

definition press_terms :: "string set" where
  "press_terms = {''press release'', ''earnings release'', ''news release'',
                  ''conference call'', ''prepared remarks'', ''investor presentation''}"

definition spec_normalized :: "string \<Rightarrow> string" where
  "spec_normalized s = strip (re_sub_ws (lower s))"

definition spec_signals :: "string \<Rightarrow> string \<Rightarrow> int" where
  "spec_signals name typ =
     (if sublist ''99.1'' typ \<or> sublist ''99.01'' typ \<or> sublist ''ex-99'' typ then 100 else 0)
   + (if sublist ''ex-99.1'' typ \<or> sublist ''ex-99.01'' typ then 120 else 0)
   + (if sublist ''ex99'' name \<or> sublist ''ex-99'' name then 50 else 0)
   + (if sublist ''99_1'' name \<or> sublist ''99-1'' name \<or> sublist ''99.1'' name
         \<or> sublist ''9901'' name then 30 else 0)
   + 20 * int (card {kw \<in> press_terms. sublist kw name})"

definition spec_textual :: "string \<Rightarrow> bool" where
  "spec_textual f = (suffix ''.htm'' f \<or> suffix ''.html'' f \<or> suffix ''.txt'' f)"

definition spec_score :: "string \<Rightarrow> string \<Rightarrow> int" where
  "spec_score name typ = spec_signals name typ + (if spec_textual name then 10 else - 100)"

text \<open>A field of a descriptor that is missing or null.\<close>

definition nullish :: "jval option \<Rightarrow> bool" where
  "nullish v = (v = None \<or> v = Some JNull)"

text \<open>The text of a field: the empty string when it is missing or null.\<close>

definition field_text :: "jval option \<Rightarrow> string" where
  "field_text v = (case v of Some (JStr s) \<Rightarrow> s | _ \<Rightarrow> [])"

text \<open>Some exhibit marker or keyword matches the normalized name or type.\<close>

definition any_signal :: "string \<Rightarrow> string \<Rightarrow> bool" where
  "any_signal name typ =
     (sublist ''99.1'' typ \<or> sublist ''99.01'' typ \<or> sublist ''ex-99'' typ
      \<or> sublist ''ex-99.1'' typ \<or> sublist ''ex-99.01'' typ
      \<or> sublist ''ex99'' name \<or> sublist ''ex-99'' name
      \<or> sublist ''99_1'' name \<or> sublist ''99-1'' name \<or> sublist ''99.1'' name
      \<or> sublist ''9901'' name
      \<or> (\<exists>kw \<in> set PRESS_KEYWORDS. sublist kw name))"

text \<open>
  The retry test of \<open>get_with_retry\<close> (lines 41 and 44), and the test as the
  specification words it: status 429 or a status of the 5xx range.
\<close>

definition retryable :: "response \<Rightarrow> bool" where
  "retryable r = (status_code r = 429 \<or> status_code r \<ge> 500)"

definition spec_retryable :: "response \<Rightarrow> bool" where
  "spec_retryable r = (status_code r = 429 \<or> (500 \<le> status_code r \<and> status_code r \<le> 599))"

text \<open>The sleeps of the attempts \<open>js\<close> when each is retried: the pacing delay, then the backoff.\<close>

definition pauses :: "nat list \<Rightarrow> rat list" where
  "pauses js = concat (map (\<lambda>i. [SLEEP_SEC, backoff i]) js)"

text \<open>
  A network that answers the requests, whatever their URL, with the responses of a list in
  order, and fails once the list is used up.
\<close>

definition serve :: "response list \<Rightarrow> server" where
  "serve rs = (\<lambda>url n. if n < length rs then Some (rs ! n) else None)"

text \<open>The nodes of a tree: the node and all that it contains.\<close>

fun subnodes :: "node \<Rightarrow> node list" where
  "subnodes (Tag name attrs children) = Tag name attrs children # concat (map subnodes children)"
| "subnodes n = [n]"

text \<open>
  A string in which every whitespace character is a space and no two of them are
  adjacent: the strings that \<open>re_sub_ws\<close> leaves unchanged.
\<close>

fun collapsed :: "string \<Rightarrow> bool" where
  "collapsed [] = True"
| "collapsed (c # cs) =
     ((isspace c \<longrightarrow> c = CHR '' '' \<and> (cs = [] \<or> \<not> isspace (hd cs))) \<and> collapsed cs)"

text \<open>
  A parser for content without markup, for the examples. On content that has no \<open><\<close>
  the library's parser builds, for the empty content, the empty soup, and otherwise one
  string: the content with its character references decoded. \<open>text_only_parser\<close> does
  this for the references \<open>&amp;\<close>, \<open>&lt;\<close> and \<open>&gt;\<close>; it is not the library's
  parser on any other content.
\<close>

function unescape :: "string \<Rightarrow> string" where
  "unescape [] = []"
| "unescape (c # cs) =
     (if c = CHR ''&'' \<and> prefix ''amp;'' cs then CHR ''&'' # unescape (drop 4 cs)
      else if c = CHR ''&'' \<and> prefix ''lt;'' cs then CHR ''<'' # unescape (drop 3 cs)
      else if c = CHR ''&'' \<and> prefix ''gt;'' cs then CHR ''>'' # unescape (drop 3 cs)
      else c # unescape cs)"
  by pat_completeness auto
termination
  by (relation "measure length") auto

definition text_only_parser :: parser where
  "text_only_parser markup = (if markup = [] then [] else [NavigableString (unescape markup)])"

text \<open>A text of \<open>n\<close> characters without whitespace or markup, for the examples.\<close>

definition filler :: "nat \<Rightarrow> string" where
  "filler n = replicate n (CHR ''x'')"

section \<open>Basic facts\<close>

lemma ebind_Inl [simp]: "ebind (Inl e) f = Inl e"
  by (simp add: ebind_def)

lemma ebind_Inr [simp]: "ebind (Inr x) f = f x"
  by (simp add: ebind_def)

lemma ebind_eq_Inr: "ebind m f = Inr y \<longleftrightarrow> (\<exists>x. m = Inr x \<and> f x = Inr y)"
  by (cases m) auto

lemma ebind_eq_Inl: "ebind m f = Inl e \<longleftrightarrow> m = Inl e \<or> (\<exists>x. m = Inr x \<and> f x = Inl e)"
  by (cases m) auto

lemma fold_keywords:
  "fold (\<lambda>kw score. if P kw then score + 20 else score) kws (s::int)
     = s + 20 * int (length (filter P kws))"
  by (induction kws arbitrary: s) auto

lemma press_terms_set: "press_terms = set PRESS_KEYWORDS"
  by (simp add: press_terms_def PRESS_KEYWORDS_def)

lemma distinct_PRESS_KEYWORDS: "distinct PRESS_KEYWORDS"
  by (simp add: PRESS_KEYWORDS_def)

lemma card_press_terms:
  "card {kw \<in> press_terms. P kw} = length (filter P PRESS_KEYWORDS)"
proof -
  have "{kw \<in> press_terms. P kw} = set (filter P PRESS_KEYWORDS)"
    by (auto simp: press_terms_set)
  moreover have "distinct (filter P PRESS_KEYWORDS)"
    using distinct_PRESS_KEYWORDS by simp
  ultimately show ?thesis
    by (metis distinct_card)
qed

lemma marker_score_spec: "marker_score name typ = spec_signals name typ"
  unfolding marker_score_def spec_signals_def Let_def fold_keywords card_press_terms
  by simp

lemma normalize_text_JStr: "normalize_text (JStr s) = Inr (spec_normalized s)"
  by (simp add: normalize_text_def py_or_def spec_normalized_def lower_def)

lemma is_text_file_JStr: "is_text_file (JStr s) = Inr (spec_textual (lower s))"
  by (simp add: is_text_file_def py_or_def spec_textual_def lower_def)


section \<open>The score of a descriptor\<close>

lemma field_normalize:
  assumes "nullish (map_of kvs k) \<or> (\<exists>s. map_of kvs k = Some (JStr s))"
  shows "\<exists>v. dict_get (JObj kvs) k (JStr []) = Inr v
           \<and> normalize_text v = Inr (spec_normalized (field_text (map_of kvs k)))
           \<and> is_text_file v = Inr (spec_textual (lower (field_text (map_of kvs k))))"
  using assms
  by (auto simp: nullish_def field_text_def normalize_text_def is_text_file_def py_or_def
      spec_normalized_def spec_textual_def)

text \<open>
  Claim C1, as amended. For every descriptor whose name and type are each a string (or
  missing or null, and then read as the empty string), the score is the sum of the table:
  the five marker and keyword signals, read on the lower-cased, whitespace-normalized
  copies of the name and the type, and the extension signal (+10 or -100), read on the
  lower-cased name as it stands, not on its normalized copy.
\<close>

theorem score_item_table:
  assumes "nullish (map_of kvs ''name'') \<or> (\<exists>s. map_of kvs ''name'' = Some (JStr s))"
    and "nullish (map_of kvs ''type'') \<or> (\<exists>s. map_of kvs ''type'' = Some (JStr s))"
  shows "score_item (JObj kvs)
           = Inr (spec_signals (spec_normalized (field_text (map_of kvs ''name'')))
                               (spec_normalized (field_text (map_of kvs ''type'')))
                  + (if spec_textual (lower (field_text (map_of kvs ''name''))) then 10 else - 100))"
proof -
  from field_normalize [OF assms(1)] obtain nv where
    n: "dict_get (JObj kvs) ''name'' (JStr []) = Inr nv"
       "normalize_text nv = Inr (spec_normalized (field_text (map_of kvs ''name'')))"
       "is_text_file nv = Inr (spec_textual (lower (field_text (map_of kvs ''name''))))"
    by blast
  from field_normalize [OF assms(2)] obtain tv where
    t: "dict_get (JObj kvs) ''type'' (JStr []) = Inr tv"
       "normalize_text tv = Inr (spec_normalized (field_text (map_of kvs ''type'')))"
    by blast
  from n t show ?thesis
    by (simp add: score_item_def marker_score_spec)
qed

theorem score_item_table_witness:
  "score_item (JObj [(''name'', JStr ''EX991 Press  Release.HTM''), (''type'', JStr ''EX-99.1'')])
     = Inr 300
   \<and> score_item (JObj [(''name'', JStr ''Notes.TXT''), (''type'', JNull)]) = Inr 10"
proof -
  have "marker_score (spec_normalized ''EX991 Press  Release.HTM'') (spec_normalized ''EX-99.1'') = 290"
    by (simp add: spec_normalized_def lower_def lower_char_def strip_def isspace_def whitespace_def marker_score_def PRESS_KEYWORDS_def sublist_code prefix_code)
  moreover have "spec_textual (lower ''EX991 Press  Release.HTM'')"
    by (simp add: spec_textual_def lower_def lower_char_def suffix_to_prefix)
  moreover have "marker_score (spec_normalized ''Notes.TXT'') (spec_normalized []) = 0"
    by (simp add: spec_normalized_def lower_def lower_char_def strip_def isspace_def whitespace_def marker_score_def PRESS_KEYWORDS_def sublist_code prefix_code)
  moreover have "spec_textual (lower ''Notes.TXT'')"
    by (simp add: spec_textual_def lower_def lower_char_def suffix_to_prefix)
  ultimately show ?thesis
    using score_item_table [of "[(''name'', JStr ''EX991 Press  Release.HTM''), (''type'', JStr ''EX-99.1'')]"]
      score_item_table [of "[(''name'', JStr ''Notes.TXT''), (''type'', JNull)]"]
    by (simp add: marker_score_spec [symmetric] field_text_def nullish_def)
qed

text \<open>
  The claim as stated, with the extension read on the normalized copy like the other
  signals, fails on a name that ends in whitespace: \<open>"a.htm "\<close> scores -100, the table
  on the normalized copy \<open>"a.htm"\<close> gives 10.
\<close>

theorem score_item_table_counterexample:
  "score_item (JObj [(''name'', JStr ''a.htm ''), (''type'', JStr [])])
     \<noteq> Inr (spec_score (spec_normalized ''a.htm '') (spec_normalized []))"
proof -
  have "score_item (JObj [(''name'', JStr ''a.htm ''), (''type'', JStr [])]) = Inr (- 100)"
    by (simp add: score_item_def ebind_def normalize_text_def py_or_def lower_def lower_char_def strip_def isspace_def whitespace_def is_text_file_def marker_score_def PRESS_KEYWORDS_def sublist_code prefix_code suffix_to_prefix)
  moreover have "spec_score (spec_normalized ''a.htm '') (spec_normalized []) = 10"
    by (simp add: spec_score_def spec_textual_def marker_score_spec [symmetric] spec_normalized_def lower_def lower_char_def strip_def isspace_def whitespace_def marker_score_def PRESS_KEYWORDS_def sublist_code prefix_code suffix_to_prefix)
  ultimately show ?thesis by simp
qed


section \<open>Missing and null fields\<close>

lemma dict_get_nullish:
  "nullish (map_of kvs k) \<Longrightarrow> \<exists>v. dict_get (JObj kvs) k (JStr []) = Inr v \<and> py_or v (JStr []) = JStr []"
  by (auto simp: nullish_def py_or_def)

lemma score_item_cong:
  assumes "\<exists>nv nv'. dict_get a ''name'' (JStr []) = Inr nv \<and> dict_get b ''name'' (JStr []) = Inr nv'
              \<and> py_or nv (JStr []) = py_or nv' (JStr [])"
    and "\<exists>tv tv'. dict_get a ''type'' (JStr []) = Inr tv \<and> dict_get b ''type'' (JStr []) = Inr tv'
              \<and> py_or tv (JStr []) = py_or tv' (JStr [])"
  shows "score_item a = score_item b"
  using assms by (auto simp: score_item_def normalize_text_def is_text_file_def)

lemma score_item_name_default:
  assumes "nullish (map_of kvs ''name'')"
  shows "score_item (JObj kvs) = score_item (JObj ((''name'', JStr []) # kvs))"
  using assms by (intro score_item_cong) (auto simp: nullish_def py_or_def split: option.splits)

lemma score_item_type_default:
  assumes "nullish (map_of kvs ''type'')"
  shows "score_item (JObj kvs) = score_item (JObj ((''type'', JStr []) # kvs))"
  using assms by (intro score_item_cong) (auto simp: nullish_def py_or_def split: option.splits)

lemma is_candidate_nullish:
  assumes "nullish (map_of kvs ''name'')"
  shows "is_candidate (JObj kvs) = Inr False"
  using assms
  by (auto simp: is_candidate_def nullish_def is_text_file_def py_or_def lower_def suffix_to_prefix)

lemma text_candidates_Cons_False:
  "is_candidate it = Inr False \<Longrightarrow> text_candidates (it # its) = text_candidates its"
  by (cases "text_candidates its") auto

lemma score_item_total:
  assumes "nullish (map_of kvs ''name'') \<or> (\<exists>s. map_of kvs ''name'' = Some (JStr s))"
      and "nullish (map_of kvs ''type'') \<or> (\<exists>s. map_of kvs ''type'' = Some (JStr s))"
  shows "\<exists>s. score_item (JObj kvs) = Inr s"
  using assms
  by (auto simp: score_item_def normalize_text_def is_text_file_def nullish_def py_or_def Let_def)


text \<open>
  Claim C9. A descriptor whose name is missing or null is not a candidate: the filter
  drops it without an error, and its score is the score of the same descriptor with the
  empty name. A missing or null type scores as the empty type. With each of the two fields
  missing, null or a string, \<open>score_item\<close> returns a score.
\<close>

theorem missing_fields_tolerated:
  "(nullish (map_of kvs ''name'') \<longrightarrow>
      is_candidate (JObj kvs) = Inr False
      \<and> text_candidates (JObj kvs # its) = text_candidates its
      \<and> score_item (JObj kvs) = score_item (JObj ((''name'', JStr []) # kvs)))
   \<and> (nullish (map_of kvs ''type'') \<longrightarrow>
      score_item (JObj kvs) = score_item (JObj ((''type'', JStr []) # kvs)))
   \<and> ((nullish (map_of kvs ''name'') \<or> (\<exists>s. map_of kvs ''name'' = Some (JStr s)))
      \<and> (nullish (map_of kvs ''type'') \<or> (\<exists>s. map_of kvs ''type'' = Some (JStr s)))
      \<longrightarrow> (\<exists>s. score_item (JObj kvs) = Inr s))"
  using is_candidate_nullish text_candidates_Cons_False score_item_name_default
    score_item_type_default score_item_total
  by blast

theorem missing_fields_tolerated_witness:
  "nullish (map_of [(''type'', JNull), (''size'', JNum 3)] ''name'')
   \<and> nullish (map_of [(''type'', JNull), (''size'', JNum 3)] ''type'')
   \<and> is_candidate (JObj [(''type'', JNull), (''size'', JNum 3)]) = Inr False
   \<and> text_candidates [JObj [(''type'', JNull), (''size'', JNum 3)]] = Inr []
   \<and> score_item (JObj [(''type'', JNull), (''size'', JNum 3)]) = Inr (- 100)"
proof -
  have n: "nullish (map_of [(''type'', JNull), (''size'', JNum 3)] ''name'')"
    and t: "nullish (map_of [(''type'', JNull), (''size'', JNum 3)] ''type'')"
    by (simp_all add: nullish_def)
  have e: "score_item (JObj [(''name'', JStr []), (''type'', JNull), (''size'', JNum 3)]) = Inr (- 100)"
    by (simp add: score_item_def normalize_text_def py_or_def lower_def strip_def
        is_text_file_def marker_score_def PRESS_KEYWORDS_def sublist_code suffix_to_prefix)
  from missing_fields_tolerated [of "[(''type'', JNull), (''size'', JNum 3)]" "[]"] n t e
  show ?thesis by simp
qed


section \<open>The selection\<close>

lemma text_candidates_Inr:
  "text_candidates its = Inr cs \<Longrightarrow> cs = filter (\<lambda>it. is_candidate it = Inr True) its"
proof (induction its arbitrary: cs)
  case Nil
  then show ?case by simp
next
  case (Cons it its)
  then show ?case
    by (auto simp: ebind_eq_Inr split: if_splits)
qed

lemma text_candidates_all_eligible:
  "\<forall>it \<in> set its. is_candidate it = Inr True \<Longrightarrow> text_candidates its = Inr its"
  by (induction its) auto

lemma max_from_first:
  assumes "max_from key best bk xs = Inr w" and "key best = Inr bk"
    and "\<forall>x \<in> set pre0. \<exists>k. key x = Inr k \<and> k < bk"
    and "\<forall>x \<in> set post0. \<exists>k. key x = Inr k \<and> k \<le> bk"
  shows "\<exists>pre post kw. pre0 @ best # post0 @ xs = pre @ w # post \<and> key w = Inr kw
           \<and> (\<forall>x \<in> set pre. \<exists>k. key x = Inr k \<and> k < kw)
           \<and> (\<forall>x \<in> set post. \<exists>k. key x = Inr k \<and> k \<le> kw)"
  using assms
proof (induction xs arbitrary: best bk pre0 post0)
  case Nil
  then show ?case by auto
next
  case (Cons x xs)
  from Cons.prems(1) obtain k where k: "key x = Inr k"
    and rest: "(if k > bk then max_from key x k xs else max_from key best bk xs) = Inr w"
    by (auto simp: ebind_eq_Inr)
  show ?case
  proof (cases "k > bk")
    case True
    with rest have m: "max_from key x k xs = Inr w" by simp
    have a: "\<forall>y \<in> set (pre0 @ best # post0). \<exists>j. key y = Inr j \<and> j < k"
      using True Cons.prems(2,3,4) by fastforce
    have b: "\<forall>y \<in> set ([]::'a list). \<exists>j. key y = Inr j \<and> j \<le> k" by simp
    from Cons.IH [OF m k a b] show ?thesis by simp
  next
    case False
    with rest have m: "max_from key best bk xs = Inr w" by simp
    have b: "\<forall>y \<in> set (post0 @ [x]). \<exists>j. key y = Inr j \<and> j \<le> bk"
      using False k Cons.prems(4) by auto
    from Cons.IH [OF m Cons.prems(2) Cons.prems(3) b] show ?thesis by simp
  qed
qed

lemma max_from_total:
  "\<forall>x \<in> set xs. \<exists>k. key x = Inr k \<Longrightarrow> \<exists>w. max_from key best bk xs = Inr w"
  by (induction xs arbitrary: best bk) auto

lemma py_max_first:
  assumes "py_max key xs = Inr w"
  shows "\<exists>pre post kw. xs = pre @ w # post \<and> key w = Inr kw
           \<and> (\<forall>x \<in> set pre. \<exists>k. key x = Inr k \<and> k < kw)
           \<and> (\<forall>x \<in> set post. \<exists>k. key x = Inr k \<and> k \<le> kw)"
proof (cases xs)
  case Nil
  with assms show ?thesis by simp
next
  case (Cons x xs')
  with assms obtain k where k: "key x = Inr k" and m: "max_from key x k xs' = Inr w"
    by (auto simp: ebind_eq_Inr)
  from max_from_first [OF m k, of "[]" "[]"] Cons show ?thesis by simp
qed

lemma py_max_total:
  assumes "xs \<noteq> []" and "\<forall>x \<in> set xs. \<exists>k. key x = Inr k"
  shows "\<exists>w. py_max key xs = Inr w"
proof (cases xs)
  case Nil
  with assms show ?thesis by simp
next
  case (Cons x xs')
  with assms obtain k where "key x = Inr k" by auto
  moreover from assms Cons have "\<exists>w. max_from key x k xs' = Inr w"
    by (intro max_from_total) simp
  ultimately show ?thesis using Cons by auto
qed

lemma choose_best_Some:
  assumes "choose_best cs = Inr (Some w)"
  shows "w \<in> set cs \<and> (\<exists>s. score_item w = Inr s \<and> 20 \<le> s)"
proof -
  from assms obtain b s where b: "py_max score_item cs = Inr b" and s: "score_item b = Inr s"
    and r: "(if s < 20 then None else Some b) = Some w"
    by (auto simp: choose_best_def ebind_eq_Inr)
  from py_max_first [OF b] have "b \<in> set cs" by auto
  with s r show ?thesis by (auto split: if_splits)
qed

lemma select_best_Some:
  assumes "select_best items = Inr (Some w)"
  shows "is_candidate w = Inr True \<and> (\<exists>s. score_item w = Inr s \<and> 20 \<le> s)"
proof -
  from assms obtain its cs where "py_iter items = Inr its" and cs: "text_candidates its = Inr cs"
    and c: "choose_best cs = Inr (Some w)"
    by (auto simp: select_best_def ebind_eq_Inr split: if_splits)
  from choose_best_Some [OF c] text_candidates_Inr [OF cs] show ?thesis by auto
qed

lemma is_candidate_True:
  assumes "is_candidate d = Inr True"
  shows "\<exists>kvs name. d = JObj kvs \<and> map_of kvs ''name'' = Some (JStr name)
           \<and> spec_textual (lower name)"
proof -
  from assms obtain nv where g: "dict_get d ''name'' (JStr []) = Inr nv" and t: "is_text_file nv = Inr True"
    by (auto simp: is_candidate_def ebind_eq_Inr)
  from g obtain kvs where d: "d = JObj kvs" by (cases d) auto
  from t obtain l where l: "py_lower (py_or nv (JStr [])) = Inr l" and sl: "spec_textual l"
    by (auto simp: is_text_file_def ebind_eq_Inr spec_textual_def)
  from sl have "l \<noteq> []" by (auto simp: spec_textual_def)
  with l obtain name where "nv = JStr name" "l = lower name" "name \<noteq> []"
    by (cases nv; cases "py_or nv (JStr [])") (auto simp: py_or_def lower_def split: if_splits)
  with g d sl show ?thesis by (auto split: option.splits)
qed


lemma text_candidates_none:
  "\<forall>it \<in> set its. is_candidate it = Inr False \<Longrightarrow> text_candidates its = Inr []"
  by (induction its) auto

lemma text_candidates_set:
  "text_candidates its = Inr cs \<Longrightarrow> set cs \<subseteq> set its \<and> (\<forall>c \<in> set cs. is_candidate c = Inr True)"
  by (auto dest: text_candidates_Inr)

lemma select_best_candidates:
  assumes "text_candidates its = Inr cs"
  shows "select_best (JArr its) = select_best (JArr cs)"
proof -
  from text_candidates_set [OF assms] have "text_candidates cs = Inr cs"
    by (intro text_candidates_all_eligible) simp
  with assms show ?thesis by (simp add: select_best_def)
qed

lemma no_signal_marker_score:
  assumes "\<not> any_signal name typ"
  shows "marker_score name typ = 0"
proof -
  from assms have "filter (\<lambda>kw. sublist kw name) PRESS_KEYWORDS = []"
    by (auto simp: any_signal_def filter_empty_conv)
  with assms show ?thesis
    by (simp add: marker_score_def any_signal_def fold_keywords)
qed

lemmas selector_eval =
  select_best_def choose_best_def is_candidate_def score_item_def normalize_text_def
  is_text_file_def marker_score_def PRESS_KEYWORDS_def py_or_def lower_def lower_char_def
  strip_def isspace_def whitespace_def sublist_code prefix_code suffix_to_prefix

text \<open>
  Claim C2. On a non-empty sequence of eligible candidates, each with a score,
  \<open>select_best\<close> finds the first candidate of maximum score: every candidate before the
  winner scores strictly less, every candidate after it at most as much. It returns the
  winner, or \<open>None\<close> when the winner's score is below 20.
\<close>

theorem select_best_first_maximum:
  assumes "candidates \<noteq> []"
    and "\<forall>c \<in> set candidates. is_candidate c = Inr True"
    and "\<forall>c \<in> set candidates. \<exists>s. score_item c = Inr s"
  shows "\<exists>pre w post s. candidates = pre @ w # post \<and> score_item w = Inr s
           \<and> (\<forall>c \<in> set pre. \<exists>k. score_item c = Inr k \<and> k < s)
           \<and> (\<forall>c \<in> set post. \<exists>k. score_item c = Inr k \<and> k \<le> s)
           \<and> select_best (JArr candidates) = Inr (if s < 20 then None else Some w)"
proof -
  from py_max_total [OF assms(1,3)] obtain w where w: "py_max score_item candidates = Inr w"
    by blast
  from py_max_first [OF w] obtain pre post s where d: "candidates = pre @ w # post"
    and s: "score_item w = Inr s"
    and lt: "\<forall>c \<in> set pre. \<exists>k. score_item c = Inr k \<and> k < s"
    and le: "\<forall>c \<in> set post. \<exists>k. score_item c = Inr k \<and> k \<le> s"
    by blast
  have "text_candidates candidates = Inr candidates"
    using assms(2) by (rule text_candidates_all_eligible)
  with assms(1) w s have "select_best (JArr candidates) = Inr (if s < 20 then None else Some w)"
    by (simp add: select_best_def choose_best_def)
  with d s lt le show ?thesis by blast
qed

theorem select_best_first_maximum_witness:
  "is_candidate (JObj [(''name'', JStr ''cover.htm''), (''type'', JStr ''8-K'')]) = Inr True
   \<and> is_candidate (JObj [(''name'', JStr ''ex99a.htm''), (''type'', JStr ''EX-99'')]) = Inr True
   \<and> is_candidate (JObj [(''name'', JStr ''ex99b.htm''), (''type'', JStr ''EX-99'')]) = Inr True
   \<and> score_item (JObj [(''name'', JStr ''cover.htm''), (''type'', JStr ''8-K'')]) = Inr 10
   \<and> score_item (JObj [(''name'', JStr ''ex99a.htm''), (''type'', JStr ''EX-99'')]) = Inr 160
   \<and> score_item (JObj [(''name'', JStr ''ex99b.htm''), (''type'', JStr ''EX-99'')]) = Inr 160
   \<and> (\<exists>pre w post s.
         [JObj [(''name'', JStr ''cover.htm''), (''type'', JStr ''8-K'')],
          JObj [(''name'', JStr ''ex99a.htm''), (''type'', JStr ''EX-99'')],
          JObj [(''name'', JStr ''ex99b.htm''), (''type'', JStr ''EX-99'')]] = pre @ w # post
         \<and> score_item w = Inr s
         \<and> (\<forall>c \<in> set pre. \<exists>k. score_item c = Inr k \<and> k < s)
         \<and> (\<forall>c \<in> set post. \<exists>k. score_item c = Inr k \<and> k \<le> s)
         \<and> select_best (JArr [JObj [(''name'', JStr ''cover.htm''), (''type'', JStr ''8-K'')],
                                JObj [(''name'', JStr ''ex99a.htm''), (''type'', JStr ''EX-99'')],
                                JObj [(''name'', JStr ''ex99b.htm''), (''type'', JStr ''EX-99'')]])
             = Inr (if s < 20 then None else Some w))
   \<and> select_best (JArr [JObj [(''name'', JStr ''cover.htm''), (''type'', JStr ''8-K'')],
                          JObj [(''name'', JStr ''ex99a.htm''), (''type'', JStr ''EX-99'')],
                          JObj [(''name'', JStr ''ex99b.htm''), (''type'', JStr ''EX-99'')]])
       = Inr (Some (JObj [(''name'', JStr ''ex99a.htm''), (''type'', JStr ''EX-99'')]))"
  (is "?C1 \<and> ?C2 \<and> ?C3 \<and> ?S1 \<and> ?S2 \<and> ?S3 \<and> ?E \<and> ?R")
proof -
  have c: ?C1 ?C2 ?C3
    by (simp_all add: selector_eval)
  have s: ?S1 ?S2 ?S3
    by (simp_all add: selector_eval)
  have r: ?R
    by (simp add: selector_eval)
  have ?E
    by (rule select_best_first_maximum) (use c s in simp_all)
  with c s r show ?thesis by simp
qed

text \<open>
  Claim C4. A descriptor that \<open>select_best\<close> returns has a name that is a string
  ending, once lower-cased, in \<open>.htm\<close>, \<open>.html\<close> or \<open>.txt\<close>. The descriptors the
  filter drops play no part: the result is that of the filtered list. When the filter
  drops every descriptor the result is \<open>None\<close>.
\<close>

theorem select_best_textual_only:
  "(select_best items = Inr (Some d) \<longrightarrow>
      (\<exists>kvs name. d = JObj kvs \<and> map_of kvs ''name'' = Some (JStr name)
         \<and> (suffix ''.htm'' (lower name) \<or> suffix ''.html'' (lower name)
              \<or> suffix ''.txt'' (lower name))))
   \<and> (text_candidates its = Inr cs \<longrightarrow> select_best (JArr its) = select_best (JArr cs))
   \<and> (py_iter items = Inr its \<and> (\<forall>it \<in> set its. is_candidate it = Inr False)
        \<longrightarrow> select_best items = Inr None)"
proof (intro conjI impI)
  assume "select_best items = Inr (Some d)"
  then have "is_candidate d = Inr True" by (simp add: select_best_Some)
  from is_candidate_True [OF this]
  show "\<exists>kvs name. d = JObj kvs \<and> map_of kvs ''name'' = Some (JStr name)
         \<and> (suffix ''.htm'' (lower name) \<or> suffix ''.html'' (lower name)
              \<or> suffix ''.txt'' (lower name))"
    by (simp add: spec_textual_def)
next
  assume "text_candidates its = Inr cs"
  then show "select_best (JArr its) = select_best (JArr cs)" by (rule select_best_candidates)
next
  assume "py_iter items = Inr its \<and> (\<forall>it \<in> set its. is_candidate it = Inr False)"
  then show "select_best items = Inr None"
    by (simp add: select_best_def text_candidates_none)
qed

theorem select_best_textual_only_witness:
  "select_best (JArr [JObj [(''name'', JStr ''ex991.pdf''), (''type'', JStr ''EX-99.1'')],
                      JObj [(''name'', JStr ''EX99.HTM''), (''type'', JStr ''EX-99'')]])
     = Inr (Some (JObj [(''name'', JStr ''EX99.HTM''), (''type'', JStr ''EX-99'')]))
   \<and> (\<exists>kvs name. JObj [(''name'', JStr ''EX99.HTM''), (''type'', JStr ''EX-99'')] = JObj kvs
         \<and> map_of kvs ''name'' = Some (JStr name)
         \<and> (suffix ''.htm'' (lower name) \<or> suffix ''.html'' (lower name)
              \<or> suffix ''.txt'' (lower name)))
   \<and> text_candidates [JObj [(''name'', JStr ''ex991.pdf''), (''type'', JStr ''EX-99.1'')],
                        JObj [(''name'', JStr ''EX99.HTM''), (''type'', JStr ''EX-99'')]]
       = Inr [JObj [(''name'', JStr ''EX99.HTM''), (''type'', JStr ''EX-99'')]]
   \<and> select_best (JArr [JObj [(''name'', JStr ''ex991.pdf''), (''type'', JStr ''EX-99.1'')],
                          JObj [(''name'', JStr ''EX99.HTM''), (''type'', JStr ''EX-99'')]])
       = select_best (JArr [JObj [(''name'', JStr ''EX99.HTM''), (''type'', JStr ''EX-99'')]])
   \<and> is_candidate (JObj [(''name'', JStr ''ex991.pdf''), (''type'', JStr ''EX-99.1'')]) = Inr False
   \<and> select_best (JArr [JObj [(''name'', JStr ''ex991.pdf''), (''type'', JStr ''EX-99.1'')]])
       = Inr None"
  (is "?A \<and> ?B \<and> ?C \<and> ?D \<and> ?E \<and> ?F")
proof -
  have a: ?A by (simp add: selector_eval)
  have c: ?C by (simp add: selector_eval)
  have e: ?E by (simp add: selector_eval)
  from select_best_textual_only
    [of "JArr [JObj [(''name'', JStr ''ex991.pdf''), (''type'', JStr ''EX-99.1'')],
               JObj [(''name'', JStr ''EX99.HTM''), (''type'', JStr ''EX-99'')]]"
        "JObj [(''name'', JStr ''EX99.HTM''), (''type'', JStr ''EX-99'')]"
        "[JObj [(''name'', JStr ''ex991.pdf''), (''type'', JStr ''EX-99.1'')],
          JObj [(''name'', JStr ''EX99.HTM''), (''type'', JStr ''EX-99'')]]"
        "[JObj [(''name'', JStr ''EX99.HTM''), (''type'', JStr ''EX-99'')]]"] a c
  have b: ?B and d: ?D by blast+
  from select_best_textual_only
    [of "JArr [JObj [(''name'', JStr ''ex991.pdf''), (''type'', JStr ''EX-99.1'')]]" _
        "[JObj [(''name'', JStr ''ex991.pdf''), (''type'', JStr ''EX-99.1'')]]"] e
  have f: ?F by simp
  from a b c d e f show ?thesis by blast
qed

text \<open>
  Claim C10. A descriptor with a textual name and no marker or keyword match scores
  exactly 10. Whatever \<open>select_best\<close> returns has at least one marker or keyword match
  in its normalized name or type.
\<close>

theorem extension_alone_rejected:
  "(map_of kvs ''name'' = Some (JStr name) \<and> map_of kvs ''type'' = Some (JStr typ)
      \<and> spec_textual (lower name) \<and> \<not> any_signal (spec_normalized name) (spec_normalized typ)
      \<longrightarrow> score_item (JObj kvs) = Inr 10)
   \<and> (select_best items = Inr (Some d) \<longrightarrow>
        (\<exists>nv tv name typ. dict_get d ''name'' (JStr []) = Inr nv \<and> normalize_text nv = Inr name
           \<and> dict_get d ''type'' (JStr []) = Inr tv \<and> normalize_text tv = Inr typ
           \<and> any_signal name typ))"
proof (intro conjI impI)
  assume a: "map_of kvs ''name'' = Some (JStr name) \<and> map_of kvs ''type'' = Some (JStr typ)
      \<and> spec_textual (lower name) \<and> \<not> any_signal (spec_normalized name) (spec_normalized typ)"
  then have "marker_score (spec_normalized name) (spec_normalized typ) = 0"
    by (simp add: no_signal_marker_score)
  with a show "score_item (JObj kvs) = Inr 10"
    by (simp add: score_item_def normalize_text_JStr is_text_file_JStr)
next
  assume "select_best items = Inr (Some d)"
  from select_best_Some [OF this] obtain s where c: "is_candidate d = Inr True"
    and s: "score_item d = Inr s" and s20: "20 \<le> s"
    by blast
  from s obtain nv nm tv ty b where nv: "dict_get d ''name'' (JStr []) = Inr nv"
    and nn: "normalize_text nv = Inr nm" and tv: "dict_get d ''type'' (JStr []) = Inr tv"
    and nt: "normalize_text tv = Inr ty" and b: "is_text_file nv = Inr b"
    and sc: "s = (if b then marker_score nm ty + 10 else marker_score nm ty - 100)"
    by (auto simp: score_item_def ebind_eq_Inr Let_def)
  from c nv b have "b" by (simp add: is_candidate_def)
  with sc s20 have "marker_score nm ty \<noteq> 0" by auto
  then have "any_signal nm ty" using no_signal_marker_score by blast
  with nv nn tv nt show "\<exists>nv tv name typ. dict_get d ''name'' (JStr []) = Inr nv \<and> normalize_text nv = Inr name
           \<and> dict_get d ''type'' (JStr []) = Inr tv \<and> normalize_text tv = Inr typ
           \<and> any_signal name typ"
    by blast
qed


theorem extension_alone_rejected_witness:
  "map_of [(''name'', JStr ''Report.HTM''), (''type'', JStr ''8-K'')] ''name'' = Some (JStr ''Report.HTM'')
   \<and> map_of [(''name'', JStr ''Report.HTM''), (''type'', JStr ''8-K'')] ''type'' = Some (JStr ''8-K'')
   \<and> spec_textual (lower ''Report.HTM'')
   \<and> \<not> any_signal (spec_normalized ''Report.HTM'') (spec_normalized ''8-K'')
   \<and> score_item (JObj [(''name'', JStr ''Report.HTM''), (''type'', JStr ''8-K'')]) = Inr 10
   \<and> select_best (JArr [JObj [(''name'', JStr ''Report.HTM''), (''type'', JStr ''8-K'')]]) = Inr None
   \<and> select_best (JArr [JObj [(''name'', JStr ''Report.HTM''), (''type'', JStr ''8-K'')],
                          JObj [(''name'', JStr ''news release.txt'')]])
       = Inr (Some (JObj [(''name'', JStr ''news release.txt'')]))
   \<and> (\<exists>nv tv name typ. dict_get (JObj [(''name'', JStr ''news release.txt'')]) ''name'' (JStr []) = Inr nv
         \<and> normalize_text nv = Inr name
         \<and> dict_get (JObj [(''name'', JStr ''news release.txt'')]) ''type'' (JStr []) = Inr tv
         \<and> normalize_text tv = Inr typ \<and> any_signal name typ)"
  (is "?A \<and> ?B \<and> ?C \<and> ?D \<and> ?E \<and> ?F \<and> ?G \<and> ?H")
proof -
  have a: ?A and b: ?B by simp_all
  have c: ?C by (simp add: spec_textual_def lower_def lower_char_def suffix_to_prefix)
  have d: ?D
    by (simp add: any_signal_def spec_normalized_def selector_eval)
  have f: ?F by (simp add: selector_eval)
  have g: ?G by (simp add: selector_eval)
  from extension_alone_rejected
    [of "[(''name'', JStr ''Report.HTM''), (''type'', JStr ''8-K'')]" "''Report.HTM''" "''8-K''"
        "JArr [JObj [(''name'', JStr ''Report.HTM''), (''type'', JStr ''8-K'')],
               JObj [(''name'', JStr ''news release.txt'')]]"
        "JObj [(''name'', JStr ''news release.txt'')]"] a b c d g
  have e: ?E and h: ?H by blast+
  from a b c d e f g h show ?thesis by blast
qed


section \<open>The retry loop\<close>

lemma retry_loop_retried:
  assumes "\<forall>j<length js. srv url (requests st + j) = Some (resp j) \<and> retryable (resp j)"
  shows "retry_loop srv url (js @ ks) lastr st
           = retry_loop srv url ks (if js = [] then lastr else Some (resp (length js - 1)))
               (st\<lparr>requests := requests st + length js, slept := slept st @ pauses js\<rparr>)"
  using assms
proof (induction js arbitrary: st lastr resp)
  case Nil
  then show ?case by (simp add: pauses_def)
next
  case (Cons i js)
  let ?st = "st\<lparr>requests := Suc (requests st), slept := slept st @ [SLEEP_SEC, backoff i]\<rparr>"
  from Cons.prems have r0: "srv url (requests st) = Some (resp 0)" "retryable (resp 0)"
    by auto
  have step: "retry_loop srv url ((i # js) @ ks) lastr st
                = retry_loop srv url (js @ ks) (Some (resp 0)) ?st"
    using r0 by (auto simp: session_get_def sleep_def time_sleep_def retryable_def)
  have "\<forall>j<length js. srv url (requests ?st + j) = Some ((resp \<circ> Suc) j) \<and> retryable ((resp \<circ> Suc) j)"
    using Cons.prems by auto
  from Cons.IH [OF this, of "Some (resp 0)"] step
  show ?case
    by (cases js) (simp_all add: pauses_def)
qed

lemma retry_loop_final:
  assumes "srv url (requests st) = Some r" and "\<not> retryable r"
  shows "retry_loop srv url (i # js) lastr st
           = (Inr (Some r), st\<lparr>requests := Suc (requests st), slept := slept st @ [SLEEP_SEC]\<rparr>)"
  using assms by (simp add: session_get_def sleep_def time_sleep_def retryable_def)

lemma backoff_increasing: "backoff i < backoff (Suc i)"
  by (simp add: backoff_def)

text \<open>
  Claim C3, as amended. When the network answers the requests with the responses \<open>rs\<close>,
  \<open>get_with_retry\<close> with its four attempts returns the first response whose status is
  neither 429 nor 500 or above, after one request per response up to it, sleeping the pacing
  delay before each request and the backoff after each retried one; when the first four
  responses are all retried it returns the fourth, and no error. The backoff grows with the
  attempt.
\<close>

theorem get_with_retry_outcome:
  assumes "\<forall>j<length rs. srv url (requests st + j) = Some (rs ! j)"
  shows "(\<forall>k<4. k < length rs \<and> (\<forall>j<k. retryable (rs ! j)) \<and> \<not> retryable (rs ! k) \<longrightarrow>
            get_with_retry srv url 4 st
              = (Inr (Some (rs ! k)),
                 st\<lparr>requests := requests st + k + 1,
                    slept := slept st @ pauses [0..<k] @ [SLEEP_SEC]\<rparr>))
         \<and> (4 \<le> length rs \<and> (\<forall>j<4. retryable (rs ! j)) \<longrightarrow>
            get_with_retry srv url 4 st
              = (Inr (Some (rs ! 3)),
                 st\<lparr>requests := requests st + 4, slept := slept st @ pauses [0..<4]\<rparr>))
         \<and> (\<forall>i. backoff i < backoff (Suc i))"
proof (intro conjI allI impI)
  fix k :: nat
  assume k: "k < 4" and h: "k < length rs \<and> (\<forall>j<k. retryable (rs ! j)) \<and> \<not> retryable (rs ! k)"
  let ?st = "st\<lparr>requests := requests st + length [0..<k], slept := slept st @ pauses [0..<k]\<rparr>"
  have split: "[0..<4] = [0..<k] @ k # [Suc k..<4]"
    using k by (metis le_add2 le_add_same_cancel2 less_imp_add_positive upt_add_eq_append upt_conv_Cons zero_le)
  have pre: "\<forall>j<length [0..<k]. srv url (requests st + j) = Some ((\<lambda>j. rs ! j) j) \<and> retryable ((\<lambda>j. rs ! j) j)"
    using assms h by auto
  have "get_with_retry srv url 4 st = retry_loop srv url ([0..<k] @ k # [Suc k..<4]) None st"
    unfolding get_with_retry_def using split by simp
  also have "\<dots> = retry_loop srv url (k # [Suc k..<4])
                      (if [0..<k] = [] then None else Some (rs ! (length [0..<k] - 1))) ?st"
    using pre by (rule retry_loop_retried [where resp = "\<lambda>j. rs ! j" and js = "[0..<k]" and st = st])
  also have "\<dots> = (Inr (Some (rs ! k)),
                    ?st\<lparr>requests := Suc (requests ?st), slept := slept ?st @ [SLEEP_SEC]\<rparr>)"
    using assms h by (intro retry_loop_final) auto
  finally show "get_with_retry srv url 4 st
              = (Inr (Some (rs ! k)),
                 st\<lparr>requests := requests st + k + 1,
                    slept := slept st @ pauses [0..<k] @ [SLEEP_SEC]\<rparr>)"
    by simp
next
  assume h: "4 \<le> length rs \<and> (\<forall>j<4. retryable (rs ! j))"
  have pre: "\<forall>j<length [0..<4]. srv url (requests st + j) = Some ((\<lambda>j. rs ! j) j) \<and> retryable ((\<lambda>j. rs ! j) j)"
    using assms h by auto
  have "get_with_retry srv url 4 st = retry_loop srv url ([0..<4] @ []) None st"
    unfolding get_with_retry_def by simp
  also have "\<dots> = retry_loop srv url []
                      (if [0..<4] = [] then None else Some (rs ! (length [0..<4] - 1)))
                      (st\<lparr>requests := requests st + length [0..<4], slept := slept st @ pauses [0..<4]\<rparr>)"
    using pre by (rule retry_loop_retried [where resp = "\<lambda>j. rs ! j" and js = "[0..<4]" and st = st])
  finally show "get_with_retry srv url 4 st
              = (Inr (Some (rs ! 3)),
                 st\<lparr>requests := requests st + 4, slept := slept st @ pauses [0..<4]\<rparr>)"
    by simp
next
  fix i show "backoff i < backoff (Suc i)" by (rule backoff_increasing)
qed


lemmas fetch_eval =
  get_with_retry_def session_get_def sleep_def time_sleep_def SLEEP_SEC_def backoff_def
  serve_def upt_conv_Cons

theorem get_with_retry_outcome_witness:
  "get_with_retry
     (serve [\<lparr>status_code = 429, content = [], json_body = None\<rparr>,
             \<lparr>status_code = 429, content = [], json_body = None\<rparr>,
             \<lparr>status_code = 200, content = ''ok'', json_body = None\<rparr>])
     ''u'' 4 \<lparr>requests = 0, slept = []\<rparr>
     = (Inr (Some \<lparr>status_code = 200, content = ''ok'', json_body = None\<rparr>),
        \<lparr>requests = 3, slept = [1 / 4, 1, 1 / 4, 5 / 2, 1 / 4]\<rparr>)
   \<and> get_with_retry
     (serve [\<lparr>status_code = 500, content = ''a'', json_body = None\<rparr>,
             \<lparr>status_code = 500, content = ''b'', json_body = None\<rparr>,
             \<lparr>status_code = 500, content = ''c'', json_body = None\<rparr>,
             \<lparr>status_code = 500, content = ''d'', json_body = None\<rparr>])
     ''u'' 4 \<lparr>requests = 0, slept = []\<rparr>
     = (Inr (Some \<lparr>status_code = 500, content = ''d'', json_body = None\<rparr>),
        \<lparr>requests = 4, slept = [1 / 4, 1, 1 / 4, 5 / 2, 1 / 4, 4, 1 / 4, 11 / 2]\<rparr>)"
  (is "?A \<and> ?B")
proof -
  let ?rs = "[\<lparr>status_code = 429, content = [], json_body = None\<rparr>,
             \<lparr>status_code = 429, content = [], json_body = None\<rparr>,
             \<lparr>status_code = 200, content = ''ok'', json_body = None\<rparr>]"
  let ?st = "\<lparr>requests = 0, slept = []\<rparr>"
  have h: "\<forall>j<length ?rs. serve ?rs ''u'' (requests ?st + j) = Some (?rs ! j)"
    by (simp add: serve_def)
  have p: "(2::nat) < length ?rs \<and> (\<forall>j<2. retryable (?rs ! j)) \<and> \<not> retryable (?rs ! 2)"
    by (auto simp: retryable_def less_Suc_eq numeral_2_eq_2)
  from get_with_retry_outcome [where rs = ?rs and srv = "serve ?rs" and url = "''u''" and st = ?st,
      OF h, THEN conjunct1, rule_format, where k = 2] p
  have "get_with_retry (serve ?rs) ''u'' 4 ?st
          = (Inr (Some (?rs ! 2)),
             ?st\<lparr>requests := requests ?st + 2 + 1, slept := slept ?st @ pauses [0..<2] @ [SLEEP_SEC]\<rparr>)"
    by simp
  then have a: ?A
    by (simp add: pauses_def SLEEP_SEC_def backoff_def upt_conv_Cons)
  let ?qs = "[\<lparr>status_code = 500, content = ''a'', json_body = None\<rparr>,
             \<lparr>status_code = 500, content = ''b'', json_body = None\<rparr>,
             \<lparr>status_code = 500, content = ''c'', json_body = None\<rparr>,
             \<lparr>status_code = 500, content = ''d'', json_body = None\<rparr>]"
  have h': "\<forall>j<length ?qs. serve ?qs ''u'' (requests ?st + j) = Some (?qs ! j)"
    by (simp add: serve_def)
  have p': "4 \<le> length ?qs \<and> (\<forall>j<4. retryable (?qs ! j))"
    by (auto simp: retryable_def less_Suc_eq numeral_eq_Suc)
  from get_with_retry_outcome [where rs = ?qs and srv = "serve ?qs" and url = "''u''" and st = ?st,
      OF h', THEN conjunct2, THEN conjunct1, rule_format] p'
  have "get_with_retry (serve ?qs) ''u'' 4 ?st
          = (Inr (Some (?qs ! 3)),
             ?st\<lparr>requests := requests ?st + 4, slept := slept ?st @ pauses [0..<4]\<rparr>)"
    by blast
  then have b: ?B
    by (simp add: pauses_def SLEEP_SEC_def backoff_def upt_conv_Cons)
  from a b show ?thesis ..
qed

text \<open>
  The claim as stated, with the 5xx range as the upper class of retried statuses, fails on
  a status above 599: on the responses 600, 200 the first response whose status is neither
  429 nor of the 5xx range is the first, and the code retries it and returns the second.
\<close>

theorem get_with_retry_outcome_counterexample:
  "fst (get_with_retry
          (serve [\<lparr>status_code = 600, content = ''a'', json_body = None\<rparr>,
                  \<lparr>status_code = 200, content = ''b'', json_body = None\<rparr>])
          ''u'' 4 \<lparr>requests = 0, slept = []\<rparr>)
     = Inr (Some \<lparr>status_code = 200, content = ''b'', json_body = None\<rparr>)
   \<and> find (\<lambda>r. \<not> spec_retryable r)
        [\<lparr>status_code = 600, content = ''a'', json_body = None\<rparr>,
         \<lparr>status_code = 200, content = ''b'', json_body = None\<rparr>]
     = Some \<lparr>status_code = 600, content = ''a'', json_body = None\<rparr>
   \<and> fst (get_with_retry
          (serve [\<lparr>status_code = 600, content = ''a'', json_body = None\<rparr>,
                  \<lparr>status_code = 200, content = ''b'', json_body = None\<rparr>])
          ''u'' 4 \<lparr>requests = 0, slept = []\<rparr>)
     \<noteq> Inr (find (\<lambda>r. \<not> spec_retryable r)
              [\<lparr>status_code = 600, content = ''a'', json_body = None\<rparr>,
               \<lparr>status_code = 200, content = ''b'', json_body = None\<rparr>])"
  by (simp add: fetch_eval spec_retryable_def)


section \<open>The removal of hidden elements\<close>

lemma matches_decompose_in [simp]: "matches p (decompose_in q n) = matches p n"
  by (cases n) simp_all

lemma decompose_in_merge:
  "decompose_in p (decompose_in q n) = decompose_in (\<lambda>a b. q a b \<or> p a b) n"
proof (induction n)
  case (Tag name attrs children)
  have "map (decompose_in p) (filter (\<lambda>c. \<not> matches p c)
          (map (decompose_in q) (filter (\<lambda>c. \<not> matches q c) children)))
        = map (decompose_in p \<circ> decompose_in q)
            (filter (\<lambda>c. \<not> matches q c \<and> \<not> matches p c) children)"
    by (simp add: filter_map o_def conj_commute)
  also have "\<dots> = map (decompose_in (\<lambda>a b. q a b \<or> p a b))
            (filter (\<lambda>c. \<not> matches q c \<and> \<not> matches p c) children)"
    using Tag.IH by (intro map_cong) auto
  also have "(\<lambda>c. \<not> matches q c \<and> \<not> matches p c) = (\<lambda>c. \<not> matches (\<lambda>a b. q a b \<or> p a b) c)"
  proof
    fix c show "(\<not> matches q c \<and> \<not> matches p c) = (\<not> matches (\<lambda>a b. q a b \<or> p a b) c)"
      by (cases c) simp_all
  qed
  finally show ?case by simp
qed simp_all

lemma matches_merge:
  "(\<not> matches q c \<and> \<not> matches p c) = (\<not> matches (\<lambda>a b. q a b \<or> p a b) c)"
  by (cases c) simp_all

lemma decompose_all_merge:
  "decompose_all p (decompose_all q soup) = decompose_all (\<lambda>a b. q a b \<or> p a b) soup"
proof -
  have "filter (\<lambda>c. \<not> matches p c) (map (decompose_in q) (filter (\<lambda>c. \<not> matches q c) soup))
          = map (decompose_in q) (filter (\<lambda>c. \<not> matches q c \<and> \<not> matches p c) soup)"
    by (simp add: filter_map o_def conj_commute)
  then show ?thesis
    by (simp add: decompose_all_def o_def decompose_in_merge matches_merge)
qed

lemma clean_soup_merged:
  "clean_soup soup
     = decompose_all (\<lambda>a b. (is_script_or_style a b \<or> is_ix a b) \<or> is_hidden a b) soup"
  by (simp add: clean_soup_def decompose_all_merge)

lemma clean_soup_hidden_first: "clean_soup (decompose_all is_hidden soup) = clean_soup soup"
proof -
  have "(\<lambda>a b. is_hidden a b \<or> (is_script_or_style a b \<or> is_ix a b) \<or> is_hidden a b)
          = (\<lambda>a b. (is_script_or_style a b \<or> is_ix a b) \<or> is_hidden a b)"
    by auto
  then show ?thesis
    by (simp add: clean_soup_merged decompose_all_merge)
qed

lemma decompose_all_drop:
  "matches p t \<Longrightarrow> decompose_all p (before @ t # after) = decompose_all p (before @ after)"
  by (simp add: decompose_all_def)

lemma subnodes_decompose_in:
  "\<not> matches p n \<Longrightarrow> t \<in> set (subnodes (decompose_in p n)) \<Longrightarrow> \<not> matches p t"
proof (induction n arbitrary: t)
  case (Tag name attrs children)
  then show ?case by (auto simp: )
qed auto

lemma subnodes_decompose_all:
  "t \<in> set (concat (map subnodes (decompose_all p soup))) \<Longrightarrow> \<not> matches p t"
  by (auto simp: decompose_all_def dest: subnodes_decompose_in)

lemma subnodes_clean_soup:
  "t \<in> set (concat (map subnodes (clean_soup soup))) \<Longrightarrow> \<not> matches is_hidden t"
proof -
  assume "t \<in> set (concat (map subnodes (clean_soup soup)))"
  then have "t \<in> set (concat (map subnodes (decompose_all is_hidden
      (decompose_all is_ix (decompose_all is_script_or_style soup)))))"
    by (simp add: clean_soup_def)
  then show ?thesis by (rule subnodes_decompose_all)
qed

lemma lower_append: "lower (xs @ ys) = lower xs @ lower ys"
  by (simp add: lower_def)

lemma hidden_style_spaces:
  assumes "lower (filter (\<lambda>c. c \<noteq> CHR '' '') mid) = ''display:none''"
  shows "hidden_style (Some (pre @ mid @ post))"
proof -
  from assms have "mid \<noteq> []" by (auto simp: lower_def)
  moreover have "sublist ''display:none''
      (lower (filter (\<lambda>c. c \<noteq> CHR '' '') pre) @ ''display:none''
        @ lower (filter (\<lambda>c. c \<noteq> CHR '' '') post))"
    by (rule sublist_appendI) 
  ultimately show ?thesis
    using assms by (simp add: hidden_style_def lower_append)
qed


text \<open>
  What the removal does for the space character. The style test holds for every style
  value that contains, once its space characters are deleted and its letters lower-cased,
  \<open>display:none\<close>: whatever the case of the letters and the number of spaces inside. No
  tag with such a style is left in the soup after the removals, and the text is that of
  the document with these tags deleted beforehand.
\<close>

lemma hidden_elements_removed_spaces:
  "(lower (filter (\<lambda>c. c \<noteq> CHR '' '') mid) = ''display:none''
      \<longrightarrow> hidden_style (Some (pre @ mid @ post)))
   \<and> (\<forall>t \<in> set (concat (map subnodes (clean_soup soup))). \<not> matches is_hidden t)
   \<and> soup_to_text (decompose_all is_hidden soup) = soup_to_text soup
   \<and> (is_hidden name attrs \<longrightarrow>
        soup_to_text (before @ Tag name attrs children # after) = soup_to_text (before @ after))"
proof (intro conjI impI ballI)
  assume "lower (filter (\<lambda>c. c \<noteq> CHR '' '') mid) = ''display:none''"
  then show "hidden_style (Some (pre @ mid @ post))" by (rule hidden_style_spaces)
next
  fix t assume "t \<in> set (concat (map subnodes (clean_soup soup)))"
  then show "\<not> matches is_hidden t" by (rule subnodes_clean_soup)
next
  show "soup_to_text (decompose_all is_hidden soup) = soup_to_text soup"
    by (simp add: soup_to_text_def clean_soup_hidden_first)
next
  assume "is_hidden name attrs"
  then have "matches (\<lambda>a b. (is_script_or_style a b \<or> is_ix a b) \<or> is_hidden a b)
               (Tag name attrs children)"
    by simp
  then have "clean_soup (before @ Tag name attrs children # after) = clean_soup (before @ after)"
    unfolding clean_soup_merged by (rule decompose_all_drop)
  then show "soup_to_text (before @ Tag name attrs children # after) = soup_to_text (before @ after)"
    by (simp add: soup_to_text_def)
qed

lemmas extractor_eval =
  soup_to_text_def clean_soup_def decompose_all_def get_text_def is_script_or_style_def
  is_ix_def is_hidden_def hidden_style_def lower_def lower_char_def strip_def isspace_def
  whitespace_def sublist_code prefix_code

lemma hidden_elements_removed_example:
  "lower (filter (\<lambda>c. c \<noteq> CHR '' '') ''Display : NONE'') = ''display:none''
   \<and> hidden_style (Some (''color:red; '' @ ''Display : NONE'' @ '';''))
   \<and> is_hidden ''div'' [(''style'', ''color:red; Display : NONE;'')]
   \<and> clean_soup [Tag ''p'' [] [NavigableString ''shown'',
                    Tag ''div'' [(''style'', ''color:red; Display : NONE;'')] [NavigableString ''secret'']]]
       = [Tag ''p'' [] [NavigableString ''shown'']]
   \<and> \<not> matches is_hidden (Tag ''p'' [] [NavigableString ''shown''])
   \<and> soup_to_text ([NavigableString ''a''] @ Tag ''div'' [(''style'', ''color:red; Display : NONE;'')]
                       [NavigableString ''secret''] # [NavigableString ''b''])
       = soup_to_text ([NavigableString ''a''] @ [NavigableString ''b''])
   \<and> soup_to_text ([NavigableString ''a''] @ [NavigableString ''b'']) = ''a b''"
  (is "?A \<and> ?B \<and> ?C \<and> ?D \<and> ?E \<and> ?F \<and> ?G")
proof -
  have a: ?A by (simp add: lower_def lower_char_def)
  have c: ?C by (simp add: extractor_eval)
  have d: ?D by (simp add: extractor_eval)
  have g: ?G by (simp add: extractor_eval)
  note t = hidden_elements_removed_spaces [where mid = "''Display : NONE''" and pre = "''color:red; ''"
      and post = "'';''" and name = "''div''" and attrs = "[(''style'', ''color:red; Display : NONE;'')]"
      and soup = "[Tag ''p'' [] [NavigableString ''shown'',
                    Tag ''div'' [(''style'', ''color:red; Display : NONE;'')] [NavigableString ''secret'']]]"
      and before = "[NavigableString ''a'']" and after = "[NavigableString ''b'']"
      and children = "[NavigableString ''secret'']"]
  from t a have b: ?B by blast
  from t d have e: ?E by simp
  from t c have f: ?F by blast
  from a b c d e f g show ?thesis by blast
qed

text \<open>
  Claim C6. Every element whose inline style holds a \<open>display:none\<close> declaration is to
  be removed, whatever the case of the letters and whatever the amount and kind of
  whitespace between \<open>display\<close>, the colon and \<open>none\<close>. The code does so for the space
  character only: with a tab or a newline after the colon, and likewise with any other
  whitespace character than the space, the style test is false and the text of the
  element is in the output, while the same element with a space is removed.
\<close>

theorem hidden_element_kept_on_other_whitespace:
  "\<not> hidden_style (Some (''display:'' @ [CHR 0x09] @ ''none''))
   \<and> soup_to_text [Tag ''div'' [(''style'', ''display:'' @ [CHR 0x09] @ ''none'')]
                      [NavigableString ''secret'']] = ''secret''
   \<and> \<not> hidden_style (Some (''display:'' @ [CHR 0x0A] @ ''none''))
   \<and> soup_to_text [Tag ''div'' [(''style'', ''display:'' @ [CHR 0x0A] @ ''none'')]
                      [NavigableString ''secret'']] = ''secret''
   \<and> list_all (\<lambda>w. \<not> hidden_style (Some (''display:'' @ [w] @ ''none'')))
        (removeAll (CHR '' '') whitespace)
   \<and> hidden_style (Some ''display: none'')
   \<and> soup_to_text [Tag ''div'' [(''style'', ''display: none'')]
                      [NavigableString ''secret'']] = []"
  by (simp add: extractor_eval)


section \<open>Extraction applied twice\<close>

lemma last_dropWhile: "dropWhile P xs \<noteq> [] \<Longrightarrow> last (dropWhile P xs) = last xs"
  by (induction xs) (auto split: if_splits)

lemma strip_Nil [simp]: "strip [] = []"
  by (simp add: strip_def)

lemma strip_ends:
  assumes "strip s \<noteq> []"
  shows "\<not> isspace (hd (strip s)) \<and> \<not> isspace (last (strip s))"
proof -
  let ?t = "dropWhile isspace s"
  let ?u = "dropWhile isspace (rev ?t)"
  from assms have u: "?u \<noteq> []" by (simp add: strip_def)
  then have t: "?t \<noteq> []" by (cases "?t = []") simp_all
  have "hd (strip s) = last ?u" using u by (simp add: strip_def hd_rev)
  also have "\<dots> = last (rev ?t)" using u by (rule last_dropWhile)
  also have "\<dots> = hd ?t" using t by (simp add: last_rev)
  finally have "\<not> isspace (hd (strip s))" using t hd_dropWhile [of isspace s] by simp
  moreover have "last (strip s) = hd ?u" using u by (simp add: strip_def last_rev)
  then have "\<not> isspace (last (strip s))" using u hd_dropWhile [of isspace "rev ?t"] by simp
  ultimately show ?thesis by simp
qed

lemma strip_trimmed:
  assumes "s = [] \<or> (\<not> isspace (hd s) \<and> \<not> isspace (last s))"
  shows "strip s = s"
proof (cases "s = []")
  case True
  then show ?thesis by simp
next
  case False
  with assms have h: "\<not> isspace (hd s)" and l: "\<not> isspace (last s)" by auto
  from False h have a: "dropWhile isspace s = s" by (cases s) auto
  from False l have "\<not> isspace (hd (rev s))" by (simp add: hd_rev)
  with False have "dropWhile isspace (rev s) = rev s" by (cases "rev s") auto
  with a show ?thesis by (simp add: strip_def)
qed

lemma strip_idem: "strip (strip s) = strip s"
  using strip_ends [of s] by (intro strip_trimmed) auto

lemma strip_take: "\<exists>n. rev (dropWhile P (rev s)) = take n s"
proof -
  have "rev (dropWhile P (rev s)) = rev (drop (length (takeWhile P (rev s))) (rev s))"
    by (simp add: dropWhile_eq_drop)
  also have "\<dots> = take (length s - length (takeWhile P (rev s))) s"
    by (simp add: rev_drop)
  finally show ?thesis by blast
qed

lemma collapsed_tl: "collapsed (c # cs) \<Longrightarrow> collapsed cs"
  by simp

lemma collapsed_dropWhile: "collapsed s \<Longrightarrow> collapsed (dropWhile P s)"
  by (induction s) auto

lemma collapsed_take: "collapsed s \<Longrightarrow> collapsed (take n s)"
proof (induction s arbitrary: n)
  case Nil
  then show ?case by simp
next
  case (Cons c cs)
  show ?case
  proof (cases n)
    case 0
    then show ?thesis by simp
  next
    case (Suc m)
    have "take m cs = [] \<or> hd (take m cs) = hd cs"
      by (cases m; cases cs) auto
    with Cons Suc show ?thesis by auto
  qed
qed

lemma collapsed_strip: "collapsed s \<Longrightarrow> collapsed (strip s)"
proof -
  assume c: "collapsed s"
  obtain n where "strip s = take n (dropWhile isspace s)"
    unfolding strip_def using strip_take by blast
  with c show ?thesis by (simp add: collapsed_dropWhile collapsed_take)
qed

lemma re_sub_ws_hd:
  "s \<noteq> [] \<Longrightarrow> \<not> isspace (hd s) \<Longrightarrow> re_sub_ws s \<noteq> [] \<and> hd (re_sub_ws s) = hd s"
  by (cases s) auto

lemma collapsed_re_sub_ws: "collapsed (re_sub_ws s)"
proof (induction s rule: re_sub_ws.induct)
  case 1
  then show ?case by simp
next
  case (2 c cs)
  show ?case
  proof (cases "isspace c")
    case True
    let ?t = "dropWhile isspace cs"
    have "re_sub_ws ?t = [] \<or> \<not> isspace (hd (re_sub_ws ?t))"
    proof (cases "?t = []")
      case True
      then have "re_sub_ws ?t = []" by (simp only: re_sub_ws.simps)
      then show ?thesis by blast
    next
      case False
      then have "\<not> isspace (hd ?t)" by (rule hd_dropWhile)
      with False re_sub_ws_hd [of ?t] show ?thesis by simp
    qed
    with True 2 show ?thesis by simp
  next
    case False
    with 2 show ?thesis by simp
  qed
qed

lemma re_sub_ws_collapsed: "collapsed s \<Longrightarrow> re_sub_ws s = s"
proof (induction s)
  case Nil
  then show ?case by simp
next
  case (Cons c cs)
  show ?case
  proof (cases "isspace c")
    case True
    with Cons.prems have "c = CHR '' ''" and "cs = [] \<or> \<not> isspace (hd cs)" by auto
    then have "dropWhile isspace cs = cs" by (cases cs) auto
    with True Cons \<open>c = CHR '' ''\<close> show ?thesis by simp
  next
    case False
    with Cons show ?thesis by simp
  qed
qed

lemma normalized_fixed:
  "strip (re_sub_ws (strip (re_sub_ws s))) = strip (re_sub_ws s)"
  by (simp add: re_sub_ws_collapsed collapsed_strip collapsed_re_sub_ws strip_idem)

lemma soup_to_text_Nil: "soup_to_text [] = []"
  by (simp add: soup_to_text_def clean_soup_def decompose_all_def get_text_def)

lemma soup_to_text_string:
  "soup_to_text [NavigableString s] = strip (re_sub_ws (strip s))"
  by (simp add: soup_to_text_def clean_soup_def decompose_all_def get_text_def)

lemma soup_to_text_normalized: "\<exists>s. soup_to_text soup = strip (re_sub_ws s)"
  by (auto simp: soup_to_text_def)

text \<open>
  Claim C8, as amended. The output of \<open>clean_html_to_text\<close> is a fixed point whenever
  the parser reads it back as plain text, that is as one string holding the output itself
  (as the empty soup when the output is empty): this is so when the output has no markup
  and no character reference.
\<close>

theorem clean_html_to_text_idempotent_on_plain_text:
  assumes "parse (clean_html_to_text parse markup)
             = (if clean_html_to_text parse markup = [] then []
                else [NavigableString (clean_html_to_text parse markup)])"
  shows "clean_html_to_text parse (clean_html_to_text parse markup)
           = clean_html_to_text parse markup"
proof -
  let ?out = "clean_html_to_text parse markup"
  obtain s where s: "?out = strip (re_sub_ws s)"
    unfolding clean_html_to_text_def using soup_to_text_normalized by blast
  show ?thesis
  proof (cases "?out = []")
    case True
    with assms show ?thesis by (simp add: clean_html_to_text_def soup_to_text_Nil)
  next
    case False
    with assms have "clean_html_to_text parse ?out = soup_to_text [NavigableString ?out]"
      by (simp add: clean_html_to_text_def)
    also have "\<dots> = strip (re_sub_ws (strip ?out))"
      by (rule soup_to_text_string)
    also have "\<dots> = strip (re_sub_ws (strip (strip (re_sub_ws s))))"
      by (simp only: s)
    also have "\<dots> = strip (re_sub_ws s)"
      by (simp only: strip_idem normalized_fixed)
    also have "\<dots> = ?out"
      by (simp only: s)
    finally show ?thesis .
  qed
qed

lemmas parser_eval = clean_html_to_text_def text_only_parser_def

theorem clean_html_to_text_idempotent_on_plain_text_witness:
  "clean_html_to_text text_only_parser ''  Profit &amp;   loss '' = ''Profit & loss''
   \<and> text_only_parser ''Profit & loss'' = [NavigableString ''Profit & loss'']
   \<and> clean_html_to_text text_only_parser (clean_html_to_text text_only_parser ''  Profit &amp;   loss '')
       = clean_html_to_text text_only_parser ''  Profit &amp;   loss ''"
  (is "?A \<and> ?B \<and> ?C")
proof -
  have a: ?A by (simp add: parser_eval extractor_eval)
  have b: ?B by (simp add: parser_eval prefix_code)
  from clean_html_to_text_idempotent_on_plain_text
    [of text_only_parser "''  Profit &amp;   loss ''"] a b
  have ?C by simp
  with a b show ?thesis by blast
qed

text \<open>
  The claim as stated, for every input, fails when the output holds a character reference:
  the text of \<open>AT&amp;amp;T\<close> is \<open>AT&amp;T\<close>, and the text of that is \<open>AT&T\<close>.
\<close>

theorem clean_html_to_text_idempotent_counterexample:
  "clean_html_to_text text_only_parser ''AT&amp;amp;T'' = ''AT&amp;T''
   \<and> clean_html_to_text text_only_parser (clean_html_to_text text_only_parser ''AT&amp;amp;T'')
       = ''AT&T''
   \<and> clean_html_to_text text_only_parser (clean_html_to_text text_only_parser ''AT&amp;amp;T'')
       \<noteq> clean_html_to_text text_only_parser ''AT&amp;amp;T''"
  by (simp add: parser_eval extractor_eval)


section \<open>The filing processor: faults and validation\<close>

lemma retry_loop_error:
  "fst (retry_loop srv url js lastr st) = Inl e \<Longrightarrow> e = TransportError"
proof (induction js arbitrary: lastr st)
  case Nil
  then show ?case by simp
next
  case (Cons i js)
  then show ?case
    by (auto simp: session_get_def split: option.splits if_splits)
qed

lemma retry_loop_not_None:
  "js \<noteq> [] \<or> lastr \<noteq> None \<Longrightarrow> fst (retry_loop srv url js lastr st) \<noteq> Inr None"
proof (induction js arbitrary: lastr st)
  case Nil
  then show ?case by simp
next
  case (Cons i js)
  show ?case
    using Cons.IH [of "Some r" for r]
    by (auto simp: session_get_def split: option.splits if_splits)
qed

lemma get_with_retry_error:
  "fst (get_with_retry srv url tries st) = Inl e \<Longrightarrow> e = TransportError"
  unfolding get_with_retry_def by (rule retry_loop_error)

lemma get_with_retry_not_None: "fst (get_with_retry srv url 4 st) \<noteq> Inr None"
  unfolding get_with_retry_def by (rule retry_loop_not_None) (simp add: upt_conv_Cons)

lemma get_json_decode_fault:
  assumes "get_with_retry srv url 4 st = (Inr (Some r), st')"
    and "\<not> (400 \<le> status_code r \<and> status_code r < 600)" and "json_body r = None"
  shows "get_json srv url st = (Inl JSONDecodeError, st')"
  using assms by (simp add: get_json_def raise_for_status_def)

lemma get_json_http_fault:
  assumes "get_with_retry srv url 4 st = (Inr (Some r), st')"
    and "400 \<le> status_code r \<and> status_code r < 600"
  shows "get_json srv url st = (Inl HTTPError, st')"
  using assms by (simp add: get_json_def raise_for_status_def)

lemma py_int_error: "py_int s = Inl e \<Longrightarrow> e = ValueError"
  by (auto simp: py_int_def Let_def split: if_splits)

lemma list_accession_files_error:
  "fst (list_accession_files srv cik accession st) = Inl e \<Longrightarrow> py_int cik = Inl e"
  by (auto simp: list_accession_files_def Let_def split: sum.splits prod.splits)

lemma list_accession_files_caught:
  assumes "py_int cik = Inr n"
    and "fst (get_json srv (idx_url (py_str_int n) (filter (\<lambda>c. c \<noteq> CHR ''-'') accession)) st) = Inl e"
  shows "fst (list_accession_files srv cik accession st)
           = Inr (JArr [], py_str_int n, filter (\<lambda>c. c \<noteq> CHR ''-'') accession)"
  using assms by (auto simp: list_accession_files_def Let_def split: sum.splits prod.splits)

lemma is_candidate_error: "is_candidate x = Inl e \<Longrightarrow> e = AttributeError"
  by (cases x; cases "py_or (case map_of (case x of JObj kvs \<Rightarrow> kvs | _ \<Rightarrow> []) ''name'' of None \<Rightarrow> JStr [] | Some v \<Rightarrow> v) (JStr [])")
    (auto simp: is_candidate_def is_text_file_def ebind_eq_Inl)


lemma score_item_error: "score_item x = Inl e \<Longrightarrow> e = AttributeError"
proof -
  have l: "\<And>v e. py_lower v = Inl e \<Longrightarrow> e = AttributeError"
    subgoal for v e by (cases v) auto
    done
  have d: "\<And>k dflt e. dict_get x k dflt = Inl e \<Longrightarrow> e = AttributeError"
    subgoal for k dflt e by (cases x) auto
    done
  assume "score_item x = Inl e"
  then show ?thesis
    by (auto simp: score_item_def normalize_text_def is_text_file_def ebind_eq_Inl Let_def dest: l d)
qed

lemma max_from_error:
  "max_from key best bk xs = Inl e \<Longrightarrow> \<exists>x \<in> set xs. key x = Inl e"
  by (induction xs arbitrary: best bk) (auto simp: ebind_eq_Inl split: if_splits)

lemma py_max_error:
  "xs \<noteq> [] \<Longrightarrow> py_max key xs = Inl e \<Longrightarrow> \<exists>x \<in> set xs. key x = Inl e"
  by (cases xs) (auto simp: ebind_eq_Inl dest: max_from_error)

lemma text_candidates_error:
  "text_candidates its = Inl e \<Longrightarrow> e = AttributeError"
  by (induction its) (auto simp: ebind_eq_Inl dest: is_candidate_error)

lemma py_iter_error: "py_iter v = Inl e \<Longrightarrow> e = TypeError"
  by (cases v) auto

lemma choose_best_error:
  "cs \<noteq> [] \<Longrightarrow> choose_best cs = Inl e \<Longrightarrow> e = AttributeError"
  by (auto simp: choose_best_def ebind_eq_Inl dest: py_max_error score_item_error)

lemma select_best_error:
  "select_best items = Inl e \<Longrightarrow> e = AttributeError \<or> e = TypeError"
  by (auto simp: select_best_def ebind_eq_Inl split: if_splits
      dest: py_iter_error text_candidates_error choose_best_error)

lemma select_best_is_dict:
  assumes "select_best items = Inr (Some best)"
  shows "\<exists>kvs name. best = JObj kvs \<and> map_of kvs ''name'' = Some (JStr name)"
  using is_candidate_True [of best] select_best_Some [OF assms] by blast

lemma fetch_exhibit_error:
  assumes "fst (fetch_exhibit parse srv cik_short accession_clean (JObj kvs) st) = Inl e"
  shows "e = TransportError
         \<and> (\<exists>filename. dict_get (JObj kvs) ''name'' JNull = Inr filename
              \<and> fst (get_with_retry srv (file_url cik_short accession_clean filename) 4 st)
                  = Inl TransportError)"
proof -
  let ?fn = "case map_of kvs ''name'' of None \<Rightarrow> JNull | Some v \<Rightarrow> v"
  let ?g = "get_with_retry srv (file_url cik_short accession_clean ?fn) 4 st"
  have n: "fst ?g \<noteq> Inr None" by (rule get_with_retry_not_None)
  from assms n have "fst ?g = Inl e"
    by (cases ?g; cases "fst ?g")
       (auto simp: fetch_exhibit_def Let_def split: option.splits if_splits)
  moreover from this have "e = TransportError" by (rule get_with_retry_error)
  ultimately show ?thesis by simp
qed

lemma unescape_plain: "CHR ''&'' \<notin> set s \<Longrightarrow> unescape s = s"
  by (induction s) auto

lemma no_space_collapsed: "\<forall>c \<in> set s. \<not> isspace c \<Longrightarrow> collapsed s"
  by (induction s) auto

lemma no_space_strip: "\<forall>c \<in> set s. \<not> isspace c \<Longrightarrow> strip s = s"
  by (rule strip_trimmed) (cases "s = []", auto)

lemma clean_text_plain:
  assumes "s \<noteq> []" and "CHR ''&'' \<notin> set s" and "\<forall>c \<in> set s. \<not> isspace c"
  shows "clean_html_to_text text_only_parser s = s"
  using assms
  by (simp add: clean_html_to_text_def text_only_parser_def unescape_plain soup_to_text_string
      no_space_strip re_sub_ws_collapsed no_space_collapsed)

lemma clean_text_filler: "0 < n \<Longrightarrow> clean_html_to_text text_only_parser (filler n) = filler n"
  by (rule clean_text_plain) (auto simp: filler_def isspace_def whitespace_def)

lemma length_filler: "length (filler n) = n"
  by (simp add: filler_def)


lemmas processor_eval =
  list_accession_files_def get_json_def raise_for_status_def idx_url_def file_url_def
  get_with_retry_def session_get_def sleep_def time_sleep_def SLEEP_SEC_def backoff_def
  serve_def upt_conv_Cons

lemmas identifier_eval =
  py_int_def strip_def isspace_def whitespace_def is_digit_def decimal_value_def
  digit_value_def py_str_int_def

text \<open>
  Claim C5. Once the manifest has given a winner and the fetch of its content has
  returned status 200, \<open>download_best_press_release\<close> returns \<open>None\<close> when the
  extracted text has fewer than 1000 characters, and the record of the exhibit with that
  text when it has 1000 or more: 999 characters are rejected, 1000 accepted.
\<close>

theorem validation_boundary:
  assumes "list_accession_files srv cik accession st = (Inr (items, cik_short, accession_clean), st1)"
    and "truthy items"
    and "select_best items = Inr (Some best)"
    and "dict_get best ''name'' JNull = Inr filename"
    and "dict_get best ''type'' (JStr []) = Inr filetype"
    and "get_with_retry srv (file_url cik_short accession_clean filename) 4 st1 = (Inr (Some r), st2)"
    and "status_code r = 200"
  shows "download_best_press_release parse srv cik accession st
           = (if length (clean_html_to_text parse (content r)) < 1000 then Inr None
              else Inr (Some \<lparr>ExhibitFile = filename, ExhibitType = filetype,
                               URL = file_url cik_short accession_clean filename,
                               Text = clean_html_to_text parse (content r)\<rparr>),
              st2)"
  using assms
  by (simp add: download_best_press_release_def fetch_exhibit_def Let_def)


theorem validation_boundary_witness:
  "list_accession_files
     (serve [\<lparr>status_code = 200, content = [], json_body = Some (JObj [(''directory'',
                JObj [(''item'', JArr [JObj [(''name'', JStr ''ex991.htm''), (''type'', JStr ''EX-99.1'')]])])])\<rparr>,
             \<lparr>status_code = 200, content = filler 1000, json_body = None\<rparr>])
     ''0000320193'' ''0000320193-24-000007'' \<lparr>requests = 0, slept = []\<rparr>
     = (Inr (JArr [JObj [(''name'', JStr ''ex991.htm''), (''type'', JStr ''EX-99.1'')]],
             ''320193'', ''000032019324000007''),
        \<lparr>requests = 1, slept = [1 / 4]\<rparr>)
   \<and> select_best (JArr [JObj [(''name'', JStr ''ex991.htm''), (''type'', JStr ''EX-99.1'')]])
       = Inr (Some (JObj [(''name'', JStr ''ex991.htm''), (''type'', JStr ''EX-99.1'')]))
   \<and> download_best_press_release text_only_parser
     (serve [\<lparr>status_code = 200, content = [], json_body = Some (JObj [(''directory'',
                JObj [(''item'', JArr [JObj [(''name'', JStr ''ex991.htm''), (''type'', JStr ''EX-99.1'')]])])])\<rparr>,
             \<lparr>status_code = 200, content = filler 1000, json_body = None\<rparr>])
     ''0000320193'' ''0000320193-24-000007'' \<lparr>requests = 0, slept = []\<rparr>
     = (Inr (Some \<lparr>ExhibitFile = JStr ''ex991.htm'', ExhibitType = JStr ''EX-99.1'',
                     URL = ''https://www.sec.gov/Archives/edgar/data/320193/000032019324000007/ex991.htm'',
                     Text = filler 1000\<rparr>),
        \<lparr>requests = 2, slept = [1 / 4, 1 / 4]\<rparr>)
   \<and> download_best_press_release text_only_parser
     (serve [\<lparr>status_code = 200, content = [], json_body = Some (JObj [(''directory'',
                JObj [(''item'', JArr [JObj [(''name'', JStr ''ex991.htm''), (''type'', JStr ''EX-99.1'')]])])])\<rparr>,
             \<lparr>status_code = 200, content = filler 999, json_body = None\<rparr>])
     ''0000320193'' ''0000320193-24-000007'' \<lparr>requests = 0, slept = []\<rparr>
     = (Inr None, \<lparr>requests = 2, slept = [1 / 4, 1 / 4]\<rparr>)"
  (is "?L \<and> ?S \<and> ?D1 \<and> ?D2")
proof -
  let ?best = "JObj [(''name'', JStr ''ex991.htm''), (''type'', JStr ''EX-99.1'')]"
  let ?m = "\<lparr>status_code = 200, content = [], json_body = Some (JObj [(''directory'',
                JObj [(''item'', JArr [?best])])])\<rparr>"
  let ?st = "\<lparr>requests = 0, slept = []\<rparr>"
  let ?st1 = "\<lparr>requests = 1, slept = [1 / 4]\<rparr>"
  let ?st2 = "\<lparr>requests = 2, slept = [1 / 4, 1 / 4]\<rparr>"
  have i: "py_int ''0000320193'' = Inr 320193" by (simp add: identifier_eval)
  have p: "py_str_int 320193 = ''320193''" by (simp add: identifier_eval)
  have l: "list_accession_files (serve [?m, e]) ''0000320193'' ''0000320193-24-000007'' ?st
             = (Inr (JArr [?best], ''320193'', ''000032019324000007''), ?st1)" for e
    by (simp add: processor_eval i p)
  have t: "truthy (JArr [?best])" by simp
  have s: ?S by (simp add: selector_eval)
  have n: "dict_get ?best ''name'' JNull = Inr (JStr ''ex991.htm'')"
    and ty: "dict_get ?best ''type'' (JStr []) = Inr (JStr ''EX-99.1'')"
    by simp_all
  have g: "get_with_retry (serve [?m, e])
             (file_url ''320193'' ''000032019324000007'' (JStr ''ex991.htm'')) 4 ?st1
             = (Inr (Some e), ?st2)" if "status_code e = 200" for e
    using that by (simp add: processor_eval)
  have u: "file_url ''320193'' ''000032019324000007'' (JStr ''ex991.htm'')
             = ''https://www.sec.gov/Archives/edgar/data/320193/000032019324000007/ex991.htm''"
    by (simp add: file_url_def)
  have d1: ?D1
    using validation_boundary [OF l t s n ty g, of "\<lparr>status_code = 200, content = filler 1000, json_body = None\<rparr>" text_only_parser]
    by (simp add: clean_text_filler length_filler u)
  have d2: ?D2
    using validation_boundary [OF l t s n ty g, of "\<lparr>status_code = 200, content = filler 999, json_body = None\<rparr>" text_only_parser]
    by (simp add: clean_text_filler length_filler)
  from l s d1 d2 show ?thesis by blast
qed


section \<open>The filing processor: what propagates\<close>

lemma download_manifest_fault:
  assumes "py_int cik = Inr n"
    and "fst (get_json srv (idx_url (py_str_int n) (filter (\<lambda>c. c \<noteq> CHR ''-'') accession)) st) = Inl e"
  shows "fst (download_best_press_release parse srv cik accession st) = Inr None"
proof -
  from list_accession_files_caught [OF assms]
  obtain st1 where "list_accession_files srv cik accession st
      = (Inr (JArr [], py_str_int n, filter (\<lambda>c. c \<noteq> CHR ''-'') accession), st1)"
    by (cases "list_accession_files srv cik accession st") auto
  then show ?thesis by (simp add: download_best_press_release_def)
qed

lemma download_not_selected:
  assumes "list_accession_files srv cik accession st = (Inr (items, cik_short, accession_clean), st1)"
    and "\<not> truthy items \<or> select_best items = Inr None"
  shows "download_best_press_release parse srv cik accession st = (Inr None, st1)"
  using assms by (auto simp: download_best_press_release_def)

lemma download_not_fetched:
  assumes "list_accession_files srv cik accession st = (Inr (items, cik_short, accession_clean), st1)"
    and "truthy items" and "select_best items = Inr (Some best)"
    and "dict_get best ''name'' JNull = Inr filename"
    and "get_with_retry srv (file_url cik_short accession_clean filename) 4 st1 = (Inr (Some r), st2)"
    and "status_code r \<noteq> 200 \<or> length (clean_html_to_text parse (content r)) < 1000"
  shows "download_best_press_release parse srv cik accession st = (Inr None, st2)"
proof -
  from select_best_is_dict [OF assms(3)] obtain kvs where "best = JObj kvs" by blast
  with assms show ?thesis
    by (auto simp: download_best_press_release_def fetch_exhibit_def Let_def)
qed

lemma download_error:
  assumes "fst (download_best_press_release parse srv cik accession st) = Inl e"
  shows "(e = ValueError \<and> py_int cik = Inl ValueError)
       \<or> ((e = AttributeError \<or> e = TypeError)
           \<and> (\<exists>items cik_short accession_clean st1.
                 list_accession_files srv cik accession st = (Inr (items, cik_short, accession_clean), st1)
                 \<and> truthy items \<and> select_best items = Inl e))
       \<or> (e = TransportError
           \<and> (\<exists>items cik_short accession_clean st1 best filename.
                 list_accession_files srv cik accession st = (Inr (items, cik_short, accession_clean), st1)
                 \<and> truthy items \<and> select_best items = Inr (Some best)
                 \<and> dict_get best ''name'' JNull = Inr filename
                 \<and> fst (get_with_retry srv (file_url cik_short accession_clean filename) 4 st1)
                     = Inl TransportError))"
proof (cases "list_accession_files srv cik accession st")
  case (Pair res st1)
  show ?thesis
  proof (cases res)
    case (Inl e')
    with Pair assms have "e' = e" by (simp add: download_best_press_release_def)
    with Pair Inl have "py_int cik = Inl e"
      using list_accession_files_error [of srv cik accession st e] by simp
    moreover from this have "e = ValueError" by (rule py_int_error)
    ultimately show ?thesis by simp
  next
    case (Inr triple)
    obtain items cik_short accession_clean where t: "triple = (items, cik_short, accession_clean)"
      by (cases triple) auto
    note l = Pair [unfolded Inr t]
    from assms l have tr: "truthy items"
      by (auto simp: download_best_press_release_def split: if_splits)
    show ?thesis
    proof (cases "select_best items")
      case (Inl e')
      with assms l tr have "e' = e" by (simp add: download_best_press_release_def)
      with Inl have s: "select_best items = Inl e" by simp
      from select_best_error [OF s] l tr s show ?thesis by blast
    next
      case (Inr sel)
      with assms l tr obtain best where b: "sel = Some best"
        by (cases sel) (auto simp: download_best_press_release_def)
      from Inr b have sb: "select_best items = Inr (Some best)" by simp
      from select_best_is_dict [OF sb] obtain kvs where k: "best = JObj kvs" by blast
      from assms l tr sb k
      have "fst (fetch_exhibit parse srv cik_short accession_clean (JObj kvs) st1) = Inl e"
        by (simp add: download_best_press_release_def)
      from fetch_exhibit_error [OF this] l tr sb k show ?thesis by blast
    qed
  qed
qed

text \<open>
  Claim C7. A decode fault propagates from \<open>get_json\<close>: when the response left by the
  retries has no error status and its body does not decode, \<open>get_json\<close> raises
  \<open>JSONDecodeError\<close>, and with an error status it raises \<open>HTTPError\<close>. Inside
  \<open>download_best_press_release\<close> the conditions that mean "not found" return \<open>None\<close>
  and never raise: a fault of the manifest fetch (caught by \<open>list_accession_files\<close>), an
  empty manifest, no winner, a content fetch whose status is not 200, a text that is too
  short. What it raises is only a fault of parsing or transport: the identifier does not
  parse as an integer, the manifest does not have the shape of a list of descriptors, or
  the request for the content fails.
\<close>

theorem fault_propagation:
  "(get_with_retry srv url 4 st = (Inr (Some r), st')
      \<and> \<not> (400 \<le> status_code r \<and> status_code r < 600) \<and> json_body r = None
      \<longrightarrow> get_json srv url st = (Inl JSONDecodeError, st'))
   \<and> (get_with_retry srv url 4 st = (Inr (Some r), st')
      \<and> 400 \<le> status_code r \<and> status_code r < 600
      \<longrightarrow> get_json srv url st = (Inl HTTPError, st'))
   \<and> (py_int cik = Inr n
      \<and> fst (get_json srv (idx_url (py_str_int n) (filter (\<lambda>c. c \<noteq> CHR ''-'') accession)) st) = Inl e
      \<longrightarrow> fst (download_best_press_release parse srv cik accession st) = Inr None)
   \<and> (list_accession_files srv cik accession st = (Inr (items, cik_short, accession_clean), st1)
      \<and> (\<not> truthy items \<or> select_best items = Inr None)
      \<longrightarrow> download_best_press_release parse srv cik accession st = (Inr None, st1))
   \<and> (list_accession_files srv cik accession st = (Inr (items, cik_short, accession_clean), st1)
      \<and> truthy items \<and> select_best items = Inr (Some best)
      \<and> dict_get best ''name'' JNull = Inr filename
      \<and> get_with_retry srv (file_url cik_short accession_clean filename) 4 st1 = (Inr (Some r'), st2)
      \<and> (status_code r' \<noteq> 200 \<or> length (clean_html_to_text parse (content r')) < 1000)
      \<longrightarrow> download_best_press_release parse srv cik accession st = (Inr None, st2))
   \<and> (fst (download_best_press_release parse srv cik accession st) = Inl e'
      \<longrightarrow> (e' = ValueError \<and> py_int cik = Inl ValueError)
        \<or> ((e' = AttributeError \<or> e' = TypeError)
            \<and> (\<exists>items cik_short accession_clean st1.
                  list_accession_files srv cik accession st
                    = (Inr (items, cik_short, accession_clean), st1)
                  \<and> truthy items \<and> select_best items = Inl e'))
        \<or> (e' = TransportError
            \<and> (\<exists>items cik_short accession_clean st1 best filename.
                  list_accession_files srv cik accession st
                    = (Inr (items, cik_short, accession_clean), st1)
                  \<and> truthy items \<and> select_best items = Inr (Some best)
                  \<and> dict_get best ''name'' JNull = Inr filename
                  \<and> fst (get_with_retry srv (file_url cik_short accession_clean filename) 4 st1)
                      = Inl TransportError)))"
proof (intro conjI impI)
  assume "get_with_retry srv url 4 st = (Inr (Some r), st')
      \<and> \<not> (400 \<le> status_code r \<and> status_code r < 600) \<and> json_body r = None"
  then show "get_json srv url st = (Inl JSONDecodeError, st')"
    using get_json_decode_fault by blast
next
  assume "get_with_retry srv url 4 st = (Inr (Some r), st')
      \<and> 400 \<le> status_code r \<and> status_code r < 600"
  then show "get_json srv url st = (Inl HTTPError, st')"
    using get_json_http_fault by blast
next
  assume "py_int cik = Inr n
      \<and> fst (get_json srv (idx_url (py_str_int n) (filter (\<lambda>c. c \<noteq> CHR ''-'') accession)) st) = Inl e"
  then show "fst (download_best_press_release parse srv cik accession st) = Inr None"
    using download_manifest_fault by blast
next
  assume "list_accession_files srv cik accession st = (Inr (items, cik_short, accession_clean), st1)
      \<and> (\<not> truthy items \<or> select_best items = Inr None)"
  then show "download_best_press_release parse srv cik accession st = (Inr None, st1)"
    using download_not_selected by blast
next
  assume "list_accession_files srv cik accession st = (Inr (items, cik_short, accession_clean), st1)
      \<and> truthy items \<and> select_best items = Inr (Some best)
      \<and> dict_get best ''name'' JNull = Inr filename
      \<and> get_with_retry srv (file_url cik_short accession_clean filename) 4 st1 = (Inr (Some r'), st2)
      \<and> (status_code r' \<noteq> 200 \<or> length (clean_html_to_text parse (content r')) < 1000)"
  then show "download_best_press_release parse srv cik accession st = (Inr None, st2)"
    using download_not_fetched by blast
next
  assume "fst (download_best_press_release parse srv cik accession st) = Inl e'"
  then show "(e' = ValueError \<and> py_int cik = Inl ValueError)
        \<or> ((e' = AttributeError \<or> e' = TypeError)
            \<and> (\<exists>items cik_short accession_clean st1.
                  list_accession_files srv cik accession st
                    = (Inr (items, cik_short, accession_clean), st1)
                  \<and> truthy items \<and> select_best items = Inl e'))
        \<or> (e' = TransportError
            \<and> (\<exists>items cik_short accession_clean st1 best filename.
                  list_accession_files srv cik accession st
                    = (Inr (items, cik_short, accession_clean), st1)
                  \<and> truthy items \<and> select_best items = Inr (Some best)
                  \<and> dict_get best ''name'' JNull = Inr filename
                  \<and> fst (get_with_retry srv (file_url cik_short accession_clean filename) 4 st1)
                      = Inl TransportError))"
    by (rule download_error)
qed


theorem fault_propagation_witness:
  "get_json (serve [\<lparr>status_code = 200, content = ''<html>'', json_body = None\<rparr>])
     (idx_url ''320193'' ''000032019324000007'') \<lparr>requests = 0, slept = []\<rparr>
     = (Inl JSONDecodeError, \<lparr>requests = 1, slept = [1 / 4]\<rparr>)
   \<and> fst (download_best_press_release text_only_parser
            (serve [\<lparr>status_code = 200, content = ''<html>'', json_body = None\<rparr>])
            ''0000320193'' ''0000320193-24-000007'' \<lparr>requests = 0, slept = []\<rparr>) = Inr None
   \<and> get_json (serve [\<lparr>status_code = 404, content = [], json_body = None\<rparr>])
     (idx_url ''320193'' ''000032019324000007'') \<lparr>requests = 0, slept = []\<rparr>
     = (Inl HTTPError, \<lparr>requests = 1, slept = [1 / 4]\<rparr>)
   \<and> download_best_press_release text_only_parser
       (serve [\<lparr>status_code = 200, content = [], json_body = Some (JObj [(''directory'',
                  JObj [(''item'', JArr [JObj [(''name'', JStr ''ex991.htm''), (''type'', JStr ''EX-99.1'')]])])])\<rparr>,
               \<lparr>status_code = 404, content = filler 2000, json_body = None\<rparr>])
       ''0000320193'' ''0000320193-24-000007'' \<lparr>requests = 0, slept = []\<rparr>
     = (Inr None, \<lparr>requests = 2, slept = [1 / 4, 1 / 4]\<rparr>)
   \<and> fst (download_best_press_release text_only_parser
       (serve [\<lparr>status_code = 200, content = [], json_body = Some (JObj [(''directory'',
                  JObj [(''item'', JArr [JObj [(''name'', JStr ''ex991.htm''), (''type'', JStr ''EX-99.1'')]])])])\<rparr>])
       ''0000320193'' ''0000320193-24-000007'' \<lparr>requests = 0, slept = []\<rparr>)
     = Inl TransportError"
  (is "?A \<and> ?B \<and> ?C \<and> ?D \<and> ?E")
proof -
  let ?best = "JObj [(''name'', JStr ''ex991.htm''), (''type'', JStr ''EX-99.1'')]"
  let ?m = "\<lparr>status_code = 200, content = [], json_body = Some (JObj [(''directory'',
                JObj [(''item'', JArr [?best])])])\<rparr>"
  let ?bad = "\<lparr>status_code = 200, content = ''<html>'', json_body = None\<rparr>"
  let ?nf = "\<lparr>status_code = 404, content = [], json_body = None\<rparr>"
  let ?nf2 = "\<lparr>status_code = 404, content = filler 2000, json_body = None\<rparr>"
  let ?st = "\<lparr>requests = 0, slept = []\<rparr>"
  let ?st1 = "\<lparr>requests = 1, slept = [1 / 4]\<rparr>"
  let ?st2 = "\<lparr>requests = 2, slept = [1 / 4, 1 / 4]\<rparr>"
  let ?u = "idx_url ''320193'' ''000032019324000007''"
  have i: "py_int ''0000320193'' = Inr 320193" by (simp add: identifier_eval)
  have p: "py_str_int 320193 = ''320193''" by (simp add: identifier_eval)
  have f: "filter (\<lambda>c. c \<noteq> CHR ''-'') ''0000320193-24-000007'' = ''000032019324000007''"
    by simp
  have g1: "get_with_retry (serve [?bad]) ?u 4 ?st = (Inr (Some ?bad), ?st1)"
    by (simp add: processor_eval)
  have g2: "get_with_retry (serve [?nf]) ?u 4 ?st = (Inr (Some ?nf), ?st1)"
    by (simp add: processor_eval)
  have a: ?A
    using fault_propagation [where srv = "serve [?bad]" and url = ?u and st = ?st and r = ?bad
        and st' = ?st1] g1
    by simp
  have b: ?B
    using fault_propagation [where srv = "serve [?bad]" and cik = "''0000320193''" and n = 320193
        and accession = "''0000320193-24-000007''" and st = ?st and e = JSONDecodeError
        and parse = text_only_parser] i a
    by (simp add: p f)
  have c: ?C
    using fault_propagation [where srv = "serve [?nf]" and url = ?u and st = ?st and r = ?nf
        and st' = ?st1] g2
    by simp
  have l: "list_accession_files (serve (?m # more)) ''0000320193'' ''0000320193-24-000007'' ?st
             = (Inr (JArr [?best], ''320193'', ''000032019324000007''), ?st1)" for more
    by (simp add: processor_eval i p)
  have s: "select_best (JArr [?best]) = Inr (Some ?best)" by (simp add: selector_eval)
  have g3: "get_with_retry (serve [?m, ?nf2])
             (file_url ''320193'' ''000032019324000007'' (JStr ''ex991.htm'')) 4 ?st1
             = (Inr (Some ?nf2), ?st2)"
    by (simp add: processor_eval)
  have d: ?D
    using fault_propagation [where srv = "serve [?m, ?nf2]" and cik = "''0000320193''"
        and accession = "''0000320193-24-000007''" and st = ?st and items = "JArr [?best]"
        and cik_short = "''320193''" and accession_clean = "''000032019324000007''"
        and ?st1.0 = ?st1 and best = ?best and filename = "JStr ''ex991.htm''" and r' = ?nf2
        and ?st2.0 = ?st2 and parse = text_only_parser] l s g3
    by simp
  have g4: "get_with_retry (serve [?m])
             (file_url ''320193'' ''000032019324000007'' (JStr ''ex991.htm'')) 4 ?st1
             = (Inl TransportError, ?st2)"
    by (simp add: processor_eval)
  have e: ?E
    using g4 by (simp add: download_best_press_release_def fetch_exhibit_def l s)
  from a b c d e show ?thesis by blast
qed


end
